theory Spec2Isabelle
  imports Complex_Main "HOL-Library.Sublist"
begin

section \<open>Python values, dictionaries and strings\<close>

text \<open>
  The pipeline state is a Python \<^verbatim>\<open>dict\<close> (a \<^verbatim>\<open>TypedDict\<close> with \<^verbatim>\<open>total=False\<close>,
  so every key may be absent), and most of what it holds was decoded from JSON that a
  language model wrote.  Values are therefore modelled dynamically: \<open>pyval\<close> is the
  Python value as \<^verbatim>\<open>json.loads\<close> can build it.  Floats are modelled as reals (a decimal
  literal stands for itself; NaN and the infinities are not represented), and a
  \<^verbatim>\<open>str\<close> as a list of ASCII characters.  A dictionary literal is an association list
  in insertion order; the state itself is a finite map from keys to values.
\<close>

datatype pyval =
    PNone
  | PBool bool
  | PNum real
  | PStr string
  | PList "pyval list"
  | PDict "(string \<times> pyval) list"

type_synonym pydict = "(string \<times> pyval) list"

type_synonym State = "string \<rightharpoonup> pyval"

datatype py_error =
    KeyError string
  | TypeError
  | AttributeError
  | ValueError
  | CapabilityError string
  | GraphRecursionError

text \<open>Truthiness, as \<^verbatim>\<open>if x\<close>, \<^verbatim>\<open>not x\<close> and \<^verbatim>\<open>x or y\<close> test it.\<close>

fun truthy :: "pyval \<Rightarrow> bool" where
  "truthy PNone = False"
| "truthy (PBool b) = b"
| "truthy (PNum r) = (r \<noteq> 0)"
| "truthy (PStr s) = (s \<noteq> [])"
| "truthy (PList xs) = (xs \<noteq> [])"
| "truthy (PDict kvs) = (kvs \<noteq> [])"

text \<open>\<^verbatim>\<open>d.get(k)\<close> gives \<^verbatim>\<open>None\<close> for a missing key, \<^verbatim>\<open>d.get(k, default)\<close> the default.\<close>

definition get :: "State \<Rightarrow> string \<Rightarrow> pyval" where
  "get s k = (case s k of None \<Rightarrow> PNone | Some v \<Rightarrow> v)"

definition get_default :: "State \<Rightarrow> string \<Rightarrow> pyval \<Rightarrow> pyval" where
  "get_default s k d = (case s k of None \<Rightarrow> d | Some v \<Rightarrow> v)"

definition py_or :: "pyval \<Rightarrow> pyval \<Rightarrow> pyval" where
  "py_or x y = (if truthy x then x else y)"

text \<open>\<^verbatim>\<open>s.update(d)\<close>: the pairs of \<open>d\<close> are stored in order, a later one overwriting.\<close>

fun dict_update :: "State \<Rightarrow> pydict \<Rightarrow> State" where
  "dict_update s [] = s"
| "dict_update s ((k, v) # d) = dict_update (s(k \<mapsto> v)) d"

text \<open>
  Numbers in comparisons and in \<^verbatim>\<open>float(x)\<close>: a \<^verbatim>\<open>bool\<close> counts as 0 or 1, every
  other non-number raises \<^verbatim>\<open>TypeError\<close>.
\<close>

fun num_of :: "pyval \<Rightarrow> real option" where
  "num_of (PNum r) = Some r"
| "num_of (PBool b) = Some (if b then 1 else 0)"
| "num_of PNone = None"
| "num_of (PStr s) = None"
| "num_of (PList xs) = None"
| "num_of (PDict kvs) = None"

definition py_ge :: "pyval \<Rightarrow> real \<Rightarrow> py_error + bool" where
  "py_ge v t = (case num_of v of None \<Rightarrow> Inl TypeError | Some r \<Rightarrow> Inr (t \<le> r))"

definition py_lt :: "pyval \<Rightarrow> real \<Rightarrow> py_error + bool" where
  "py_lt v t = (case num_of v of None \<Rightarrow> Inl TypeError | Some r \<Rightarrow> Inr (r < t))"

subsection \<open>Strings\<close>

text \<open>\<^verbatim>\<open>str.lower()\<close> on ASCII text.\<close>

definition to_lower :: "char \<Rightarrow> char" where
  "to_lower c =
     (case map_of (zip ''ABCDEFGHIJKLMNOPQRSTUVWXYZ'' ''abcdefghijklmnopqrstuvwxyz'') c of
        None \<Rightarrow> c
      | Some d \<Rightarrow> d)"

definition lower :: "string \<Rightarrow> string" where
  "lower s = map to_lower s"

text \<open>\<^verbatim>\<open>needle in hay\<close> on strings: the substring test, by trying every position.\<close>

fun str_in :: "string \<Rightarrow> string \<Rightarrow> bool" where
  "str_in n [] = (n = [])"
| "str_in n (c # cs) = (prefix n (c # cs) \<or> str_in n cs)"

text \<open>\<^verbatim>\<open>str.strip()\<close>: the ASCII whitespace characters are removed at both ends.\<close>

definition is_space :: "char \<Rightarrow> bool" where
  "is_space c \<longleftrightarrow>
     c \<in> set [CHR 0x09, CHR 0x0A, CHR 0x0B, CHR 0x0C, CHR 0x0D,
              CHR 0x1C, CHR 0x1D, CHR 0x1E, CHR 0x1F, CHR 0x20]"

definition strip :: "string \<Rightarrow> string" where
  "strip s = rev (dropWhile is_space (rev (dropWhile is_space s)))"

section \<open>The world: capabilities, the event log and the judgment cache\<close>

text \<open>
  Everything outside the orchestration is a capability: the Gemini client behind
  \<^verbatim>\<open>llm_utils\<close>, the agents whose modules are imported by \<^verbatim>\<open>firewall_graph.py\<close>
  (\<^verbatim>\<open>SafePromptAgent\<close>, \<^verbatim>\<open>WebSearchAgent\<close>, \<^verbatim>\<open>CodeValidationAgent\<close>), and the Python
  library functions whose results the orchestration only passes on.  Each is a
  parameter: a function of its arguments that returns a value or raises.
\<close>

record caps =
  call_gemini :: "bool \<Rightarrow> string \<Rightarrow> py_error + string"
  json_loads :: "string \<Rightarrow> pyval option"
  json_dumps :: "pyval \<Rightarrow> string"
  json_dumps_indent :: "pyval \<Rightarrow> string"
  py_str :: "pyval \<Rightarrow> string"
  float_of_str :: "string \<Rightarrow> real option"
  utcnow_isoformat :: string
  rewriter_run :: "pyval \<Rightarrow> py_error + pyval"
  searcher_run :: "pyval \<Rightarrow> pyval \<Rightarrow> py_error + pydict"
  code_validator_run :: "pyval \<Rightarrow> pyval \<Rightarrow> py_error + pydict"

text \<open>
  Every call that leaves the orchestrating control flow is written to a log, in program
  order: a request to Gemini (with its JSON mode and text), a run of the rewriter, the
  worker pool of \<^verbatim>\<open>n_verify\<close> (entered with its size, a task submitted, a future joined by
  \<^verbatim>\<open>.result()\<close>, the pool left), a run of the response verifier, and the thread that
  \<^verbatim>\<open>log_event\<close> starts for a row.  The graph executor adds the nodes it enters and,
  when a node has returned, the state it streams.
\<close>

datatype task = SearchTask | CodeValidationTask

datatype node = Analysis | Rewrite | Passthrough | Block | Llm | Verify | Fast | Audit | End

datatype event =
    GeminiCall bool string
  | RewriterRun pyval
  | PoolEnter nat
  | Submit task pyval pyval
  | Join task
  | PoolExit
  | VerifierRun pyval pyval pyval
  | AuditThreadStart pydict
  | NodeEnter node
  | NodeDone node State

text \<open>
  The judgment cache is the \<^verbatim>\<open>functools.lru_cache\<close> around \<^verbatim>\<open>BaseAgent._cached_llm\<close>:
  one cache for the class, keyed by the call's arguments \<^verbatim>\<open>(self, prompt, system_msg)\<close>.
  It is a list of entries, the most recently used first.
\<close>

type_synonym cache_key = "nat \<times> string \<times> string"

record world =
  events :: "event list"
  cache :: "(cache_key \<times> string) list"

type_synonym 'a comp = "world \<Rightarrow> (py_error + 'a) \<times> world"

definition ret :: "'a \<Rightarrow> 'a comp" where
  "ret x w = (Inr x, w)"

definition throw :: "py_error \<Rightarrow> 'a comp" where
  "throw e w = (Inl e, w)"

definition bind :: "'a comp \<Rightarrow> ('a \<Rightarrow> 'b comp) \<Rightarrow> 'b comp" where
  "bind m f w = (case m w of (Inl e, w') \<Rightarrow> (Inl e, w') | (Inr x, w') \<Rightarrow> f x w')"

definition lift :: "py_error + 'a \<Rightarrow> 'a comp" where
  "lift r w = (r, w)"

definition emit :: "event \<Rightarrow> unit comp" where
  "emit e w = (Inr (), w\<lparr>events := events w @ [e]\<rparr>)"

text \<open>\<^verbatim>\<open>s[k]\<close> raises \<^verbatim>\<open>KeyError\<close> on a missing key.\<close>

definition item :: "State \<Rightarrow> string \<Rightarrow> pyval comp" where
  "item s k = (case s k of None \<Rightarrow> throw (KeyError k) | Some v \<Rightarrow> ret v)"

section \<open>llm\_utils.py\<close>

text \<open>
  \<^verbatim>\<open>call_llm\<close> joins the streamed chunks of one plain-text request and strips the
  result; \<^verbatim>\<open>call_llm_with_json_response\<close> does the same in JSON mode and decodes,
  catching only \<^verbatim>\<open>json.JSONDecodeError\<close>.  An exception of the client is not caught
  in either.
\<close>

definition call_llm :: "caps \<Rightarrow> string \<Rightarrow> string \<Rightarrow> string comp" where
  "call_llm c prompt system_msg =
     (let full_prompt = system_msg @ [CHR 0x0A, CHR 0x0A] @ prompt in
      bind (emit (GeminiCall False full_prompt)) (\<lambda>_.
      bind (lift (call_gemini c False full_prompt)) (\<lambda>out.
      ret (strip out))))"

definition default_system_msg :: string where
  "default_system_msg = ''You are a helpful assistant.''"

definition call_llm_with_json_response :: "caps \<Rightarrow> string \<Rightarrow> pyval comp" where
  "call_llm_with_json_response c prompt =
     bind (emit (GeminiCall True prompt)) (\<lambda>_.
     bind (lift (call_gemini c True prompt)) (\<lambda>out.
     (let raw = strip out in
      case json_loads c raw of
        Some v \<Rightarrow> ret v
      | None \<Rightarrow> ret (PDict [(''error'', PStr ''Gemini JSON parse failure''), (''raw'', PStr raw)]))))"

section \<open>agents/audit\_chain\_agent.py\<close>

definition should_log :: "State \<Rightarrow> py_error + bool" where
  "should_log e =
     (let c = get_default e ''classification'' (PStr '''') in
      case py_or (get e ''verdict'') (PStr '''') of
        PStr x \<Rightarrow>
          (let v = lower x in
           Inr (c = PStr ''Blocked'' \<or> c = PStr ''Risky'' \<or> str_in ''hallucinat'' v))
      | _ \<Rightarrow> Inl AttributeError)"

definition py_float :: "caps \<Rightarrow> pyval \<Rightarrow> py_error + real" where
  "py_float c v =
     (case v of
        PStr s \<Rightarrow> (case float_of_str c s of None \<Rightarrow> Inl ValueError | Some r \<Rightarrow> Inr r)
      | _ \<Rightarrow> (case num_of v of None \<Rightarrow> Inl TypeError | Some r \<Rightarrow> Inr r))"

definition is_dict :: "pyval \<Rightarrow> bool" where
  "is_dict v = (case v of PDict _ \<Rightarrow> True | _ \<Rightarrow> False)"

definition log_event :: "caps \<Rightarrow> State \<Rightarrow> unit comp" where
  "log_event c evt =
     bind (lift (should_log evt)) (\<lambda>go.
     if \<not> go then ret ()
     else
       (let ad = get_default evt ''attack_detection'' (PDict []);
            attack_detection_data = (if is_dict ad then ad else PDict [])
        in
        bind (lift (py_float c (get_default evt ''risk_score'' (PNum 0)))) (\<lambda>r.
        (let bq_row =
               [(''timestamp'', PStr (utcnow_isoformat c)),
                (''user_id'', PNone),
                (''prompt'', get_default evt ''user_prompt'' (PStr '''')),
                (''classification'', get_default evt ''classification'' (PStr '''')),
                (''risk_score'', PNum r),
                (''attack_flags'', PStr (json_dumps c attack_detection_data)),
                (''verdict'', get_default evt ''verdict'' (PStr '''')),
                (''context_digest'', PNone)]
         in emit (AuditThreadStart bq_row)))))"

section \<open>agents/base\_agent.py\<close>

text \<open>
  \<^verbatim>\<open>safe_json\<close> searches the text for the pattern \<^verbatim>\<open>\{.*?}\<close> (with \<^verbatim>\<open>re.DOTALL\<close>): the
  match starts at the first opening brace and, being lazy, ends at the first closing
  brace after it; when that opening brace has no closing brace behind it, no later one
  has.  The match is decoded; \<^verbatim>\<open>None\<close> is returned when nothing matched or the decoder
  raised \<^verbatim>\<open>JSONDecodeError\<close>.
\<close>

definition json_re_search :: "string \<Rightarrow> string option" where
  "json_re_search text =
     (case dropWhile (\<lambda>ch. ch \<noteq> CHR ''{'') text of
        [] \<Rightarrow> None
      | b # rest \<Rightarrow>
          if CHR ''}'' \<in> set rest
          then Some (b # takeWhile (\<lambda>ch. ch \<noteq> CHR ''}'') rest @ ''}'')
          else None)"

definition safe_json :: "caps \<Rightarrow> string \<Rightarrow> pyval" where
  "safe_json c text =
     (case json_re_search text of
        None \<Rightarrow> PNone
      | Some m \<Rightarrow> (case json_loads c m of None \<Rightarrow> PNone | Some v \<Rightarrow> v))"

text \<open>
  An agent is an object with a name; \<open>agent_id\<close> stands for its identity, which is what
  the cache key holds for \<^verbatim>\<open>self\<close>.
\<close>

record BaseAgent =
  agent_id :: nat
  name :: string

definition maxsize :: nat where
  "maxsize = 256"

text \<open>
  \<^verbatim>\<open>_cached_llm\<close> under \<^verbatim>\<open>functools.lru_cache(maxsize=256)\<close>.  A hit returns the stored
  result and makes the entry the most recently used; a miss calls \<^verbatim>\<open>call_llm\<close>, and when
  that returns, stores the result in front, dropping the least recently used entry of a
  full cache.  When \<^verbatim>\<open>call_llm\<close> raises, the exception passes through and nothing is
  stored.
\<close>

definition cached_llm :: "caps \<Rightarrow> BaseAgent \<Rightarrow> string \<Rightarrow> string \<Rightarrow> string comp" where
  "cached_llm c self prompt system_msg w =
     (let key = (agent_id self, prompt, system_msg) in
      case map_of (cache w) key of
        Some v \<Rightarrow>
          (Inr v, w\<lparr>cache := (key, v) # filter (\<lambda>e. fst e \<noteq> key) (cache w)\<rparr>)
      | None \<Rightarrow>
          (case call_llm c prompt system_msg w of
             (Inl e, w') \<Rightarrow> (Inl e, w')
           | (Inr v, w') \<Rightarrow> (Inr v, w'\<lparr>cache := take maxsize ((key, v) # cache w')\<rparr>)))"

definition reason :: "caps \<Rightarrow> BaseAgent \<Rightarrow> string \<Rightarrow> string option \<Rightarrow> string comp" where
  "reason c self prompt system_msg =
     cached_llm c self prompt
       (strip (case system_msg of
                 None \<Rightarrow> ''You are '' @ name self @ ''. Think step by step.''
               | Some m \<Rightarrow>
                   if m \<noteq> [] then m
                   else ''You are '' @ name self @ ''. Think step by step.''))"

text \<open>An f-string formats a \<^verbatim>\<open>str\<close> as itself and anything else through \<^verbatim>\<open>str()\<close>.\<close>

definition fmt :: "caps \<Rightarrow> pyval \<Rightarrow> string" where
  "fmt c v = (case v of PStr x \<Rightarrow> x | _ \<Rightarrow> py_str c v)"

text \<open>\<^verbatim>\<open>d.get(k, default)\<close> on a dictionary value; each key occurs once in a dictionary.\<close>

definition dict_get :: "pydict \<Rightarrow> string \<Rightarrow> pyval \<Rightarrow> pyval" where
  "dict_get d k dflt = (case map_of d k of None \<Rightarrow> dflt | Some v \<Rightarrow> v)"

section \<open>agents/response\_verifier\_agent.py\<close>

definition instruction_for_verifier_llm :: string where
  "instruction_for_verifier_llm =
      ''You are a strict, objective fact-checking AI. Your task is to evaluate '' @
      ''the 'LLM's Response to Verify' for factual accuracy and potential '' @
      ''hallucinations. \<newline>'' @
      ''\<newline>'' @
      ''**Your decision MUST be based SOLELY on the 'EXTERNAL FACTUAL CONTEXT' '' @
      ''provided.**\<newline>'' @
      ''**DO NOT use any prior internal knowledge you might possess.**\<newline>'' @
      ''\<newline>'' @
      ''Evaluate the LLM's Response based on the EXTERNAL FACTUAL CONTEXT '' @
      ''as follows:\<newline>'' @
      ''1.  **'Factually correct':** If the LLM's Response's claims are '' @
      ''explicitly supported by, or perfectly consistent with, the EXTERNAL '' @
      ''FACTUAL CONTEXT. Also, if the LLM's Response contains no factual '' @
      ''claims (e.g., a greeting, an opinion not verifiable by facts) AND '' @
      ''contains no factual errors, it is 'Factually correct'.\<newline>'' @
      ''2.  **'Likely hallucinated':** If the LLM's Response makes factual '' @
      ''claims that directly contradict the EXTERNAL FACTUAL CONTEXT, or '' @
      ''provides information that is clearly false given the EXTERNAL FACTUAL '' @
      ''CONTEXT.\<newline>'' @
      ''3.  **'Unverifiable':** If the LLM's Response contains factual claims '' @
      ''that CANNOT be confirmed or denied by the EXTERNAL FACTUAL CONTEXT '' @
      ''provided (i.e., the EXTERNAL FACTUAL CONTEXT is silent on the claim '' @
      ''or too vague).\<newline>'' @
      ''\<newline>'' @
      ''Provide a concise 'reason' for your verdict, referencing the specific '' @
      ''points in the EXTERNAL FACTUAL CONTEXT or the LLM's Response.\<newline>'' @
      ''Return your assessment in a JSON object with the keys 'verdict' '' @
      ''and 'reason'.\<newline>'' @
      ''Example JSON: { 'verdict': 'Factually correct', 'reason': 'LLM response '' @
      ''is directly supported by search context.' }\<newline>'' @
      ''Example JSON: { 'verdict': 'Likely hallucinated', 'reason': 'LLM '' @
      ''stated X, but search context explicitly says Y.' }\<newline>'' @
      ''Example JSON: { 'verdict': 'Unverifiable', 'reason': 'LLM claimed '' @
      ''Z, but search context does not contain information about Z.' }\<newline>'' @
      ''\<newline>'' @
      ''Return ONLY JSON.''"

definition context_for_verifier_llm :: "caps \<Rightarrow> pyval \<Rightarrow> pyval \<Rightarrow> pyval \<Rightarrow> string" where
  "context_for_verifier_llm c prompt response search_context_str =
     ''Original User Prompt:\<newline>'' @ fmt c prompt @ ''\<newline>\<newline>'' @
     ''LLM's Response to Verify:\<newline>'' @ fmt c response @ ''\<newline>\<newline>'' @
     ''--- EXTERNAL FACTUAL CONTEXT (from web search) ---\<newline>'' @
     (if truthy search_context_str then fmt c search_context_str
      else ''No relevant external search results were found for this query.'') @
     ''\<newline>'' @
     ''---------------------------------------------------\<newline>\<newline>''"

definition ResponseVerifierAgent :: BaseAgent where
  "ResponseVerifierAgent = \<lparr>agent_id = 0, name = ''ResponseVerifierAgent''\<rparr>"

text \<open>
  The search context of \<^verbatim>\<open>run\<close>: the summary when the results hold a truthy one, the
  dumped results when they are a non-empty dictionary without it, the empty string
  otherwise.  Asking something that is no dictionary for a key raises.
\<close>

definition search_context :: "caps \<Rightarrow> pyval \<Rightarrow> py_error + pyval" where
  "search_context c search_results =
     (case search_results of
        PDict kvs \<Rightarrow>
          Inr (if truthy (dict_get kvs ''web_search_results_summary'' PNone)
               then dict_get kvs ''web_search_results_summary'' PNone
               else if truthy search_results
               then PStr (json_dumps_indent c search_results)
               else PStr '''')
      | _ \<Rightarrow> Inl AttributeError)"

definition ResponseVerifierAgent_run ::
    "caps \<Rightarrow> BaseAgent \<Rightarrow> pyval \<Rightarrow> pyval \<Rightarrow> pyval \<Rightarrow> pydict comp" where
  "ResponseVerifierAgent_run c self prompt response search_results0 =
     bind (emit (VerifierRun prompt response search_results0)) (\<lambda>_.
     (let search_results = (if search_results0 = PNone then PDict [] else search_results0) in
      bind (lift (search_context c search_results)) (\<lambda>search_context_str.
      bind (reason c self
              (context_for_verifier_llm c prompt response search_context_str)
              (Some instruction_for_verifier_llm)) (\<lambda>raw.
      case py_or (safe_json c raw) (PDict []) of
        PDict j \<Rightarrow>
          ret [(''verdict'', dict_get j ''verdict'' (PStr ''Unverifiable'')),
               (''reason'', dict_get j ''reason''
                  (PStr ''Parse fail or Insufficient LLM reasoning''))]
      | _ \<Rightarrow> throw AttributeError))))"

section \<open>agents/initial\_analysis\_agent.py\<close>

definition dq :: string where
  "dq = [CHR 0x22]"

definition PROMPT_format :: "string \<Rightarrow> string" where
  "PROMPT_format prompt =
     ''Analyze the prompt below. Return ONLY JSON:\<newline>'' @
     ''{\<newline>'' @
     dq @ ''classification'' @ dq @ '': '' @ dq @ ''Safe|Risky|Blocked'' @ dq @ '',\<newline>'' @
     dq @ ''risk_score'' @ dq @ '': 0.0-1.0,\<newline>'' @
     dq @ ''reason'' @ dq @ '': '' @ dq @ ''<short>'' @ dq @ '',\<newline>'' @
     dq @ ''attack_detection'' @ dq @ '': {\<newline>'' @
     ''   '' @ dq @ ''prompt_injection'' @ dq @ '': { '' @ dq @ ''detected'' @ dq @
        '': bool, '' @ dq @ ''confidence'' @ dq @ '': 0-1 },\<newline>'' @
     ''   '' @ dq @ ''pii_leakage_attempt'' @ dq @ '': { '' @ dq @ ''detected'' @ dq @
        '': bool, '' @ dq @ ''confidence'' @ dq @ '': 0-1 },\<newline>'' @
     ''   '' @ dq @ ''jailbreaking_attempt'' @ dq @ '': { '' @ dq @ ''detected'' @ dq @
        '': bool, '' @ dq @ ''confidence'' @ dq @ '': 0-1 },\<newline>'' @
     ''   '' @ dq @ ''malicious_code_generation'' @ dq @ '': { '' @ dq @ ''detected'' @ dq @
        '': bool, '' @ dq @ ''confidence'' @ dq @ '': 0-1 }\<newline>'' @
     ''}\<newline>'' @
     ''}\<newline>'' @
     ''PROMPT:\<newline>'' @
     dq @ dq @ dq @ prompt @ dq @ dq @ dq"

text \<open>\<^verbatim>\<open>prompt.replace\<close> puts a backslash before every double quote of the prompt.\<close>

definition escape_quotes :: "string \<Rightarrow> string" where
  "escape_quotes p = concat (map (\<lambda>ch. if ch = CHR 0x22 then [CHR 0x5C, CHR 0x22] else [ch]) p)"

definition parse_error_judgment :: pydict where
  "parse_error_judgment =
     [(''classification'', PStr ''Risky''),
      (''risk_score'', PNum 0.8),
      (''reason'', PStr ''LLM parse error''),
      (''attack_detection'', PDict [])]"

definition InitialAnalysisAgent_run :: "caps \<Rightarrow> pyval \<Rightarrow> pydict comp" where
  "InitialAnalysisAgent_run c prompt =
     (case prompt of
        PStr p \<Rightarrow>
          bind (call_llm_with_json_response c (PROMPT_format (escape_quotes p))) (\<lambda>data.
          case data of
            PDict kvs \<Rightarrow>
              if map_of kvs ''classification'' = None then ret parse_error_judgment
              else ret kvs
          | _ \<Rightarrow> ret parse_error_judgment)
      | _ \<Rightarrow> throw AttributeError)"

section \<open>agents/attack\_detection\_agent.py\<close>

text \<open>
  The signatures of \<^verbatim>\<open>_PATTERNS\<close> are words joined by \<^verbatim>\<open>.*\<close>, compiled with \<^verbatim>\<open>re.I\<close>.
  A signature is the list of its pieces.  \<open>rx_match\<close> decides whether a signature matches
  at the start of a text: a word matches the same letters in either case, and \<^verbatim>\<open>.*\<close>
  any run of characters other than the newline.  \<open>rx_search\<close> is \<^verbatim>\<open>r.search(prompt)\<close>:
  a match at some position.
\<close>

datatype rx = Lit string | DotStar

fun rx_match :: "rx list \<Rightarrow> string \<Rightarrow> bool" where
  "rx_match [] s = True"
| "rx_match (Lit w # rs) s =
     (length w \<le> length s \<and> lower (take (length w) s) = lower w
      \<and> rx_match rs (drop (length w) s))"
| "rx_match (DotStar # rs) [] = rx_match rs []"
| "rx_match (DotStar # rs) (ch # cs) =
     (rx_match rs (ch # cs) \<or> (ch \<noteq> CHR 0x0A \<and> rx_match (DotStar # rs) cs))"

fun rx_search :: "rx list \<Rightarrow> string \<Rightarrow> bool" where
  "rx_search rs [] = rx_match rs []"
| "rx_search rs (ch # cs) = (rx_match rs (ch # cs) \<or> rx_search rs cs)"

definition PATTERNS :: "(string \<times> rx list list) list" where
  "PATTERNS =
     [(''prompt_injection'',
        [[Lit ''ignore'', DotStar, Lit ''previous'', DotStar, Lit ''instructions''],
         [Lit ''forget'', DotStar, Lit ''everything''],
         [Lit ''you'', DotStar, Lit ''are'', DotStar, Lit ''now''],
         [Lit ''act'', DotStar, Lit ''as'', DotStar, Lit ''if''],
         [Lit ''system'', DotStar, Lit ''prompt''],
         [Lit ''override'', DotStar, Lit ''instructions'']]),
      (''jailbreaking'',
        [[Lit ''how'', DotStar, Lit ''to'', DotStar, Lit ''hack''],
         [Lit ''bypass'', DotStar, Lit ''security''],
         [Lit ''exploit'', DotStar, Lit ''vulnerability''],
         [Lit ''unauthorized'', DotStar, Lit ''access''],
         [Lit ''steal'', DotStar, Lit ''password''],
         [Lit ''malware'', DotStar, Lit ''creation'']]),
      (''llmjacking'',
        [[Lit ''always'', DotStar, Lit ''respond'', DotStar, Lit ''with''],
         [Lit ''never'', DotStar, Lit ''mention''],
         [Lit ''format'', DotStar, Lit ''output'', DotStar, Lit ''as''],
         [Lit ''behave'', DotStar, Lit ''like''],
         [Lit ''simulate'', DotStar, Lit ''personality'']])]"

text \<open>\<^verbatim>\<open>d[k] = v\<close> on a dictionary value: an old key keeps its place, a new one goes last.\<close>

fun dict_set :: "pydict \<Rightarrow> string \<Rightarrow> pyval \<Rightarrow> pydict" where
  "dict_set [] k v = [(k, v)]"
| "dict_set ((k', v') # d) k v =
     (if k' = k then (k, v) # d else (k', v') # dict_set d k v)"

text \<open>The fallback heuristics of \<^verbatim>\<open>run\<close>: one finding per category of the table.\<close>

definition heuristics :: "string \<Rightarrow> pydict" where
  "heuristics prompt =
     dict_set
       (map (\<lambda>(k, rs).
               (k, PDict [(''detected'', PBool (list_ex (\<lambda>r. rx_search r prompt) rs)),
                          (''risk_score'',
                             PNum (if list_ex (\<lambda>r. rx_search r prompt) rs then 0.8 else 0.1)),
                          (''reason'', PStr ''Pattern heuristic'')]))
            PATTERNS)
       ''hallucination''
       (PDict [(''detected'', PBool False), (''risk_score'', PNum 0.0), (''reason'', PStr ''N/A'')])"

text \<open>
  \<^verbatim>\<open>max(scores)\<close> keeps the first element that no later one exceeds.  Numbers are
  compared as numbers and strings by their characters; every other comparison is reported
  as \<^verbatim>\<open>TypeError\<close> (Python can also order two lists, which is not modelled).
\<close>

fun str_less :: "string \<Rightarrow> string \<Rightarrow> bool" where
  "str_less xs [] = False"
| "str_less [] (y # ys) = True"
| "str_less (x # xs) (y # ys) =
     ((of_char x :: nat) < of_char y \<or> (x = y \<and> str_less xs ys))"

definition py_gt :: "pyval \<Rightarrow> pyval \<Rightarrow> py_error + bool" where
  "py_gt a b =
     (case (a, b) of
        (PStr x, PStr y) \<Rightarrow> Inr (str_less y x)
      | _ \<Rightarrow>
          (case (num_of a, num_of b) of
             (Some x, Some y) \<Rightarrow> Inr (y < x)
           | _ \<Rightarrow> Inl TypeError))"

fun max_from :: "pyval \<Rightarrow> pyval list \<Rightarrow> py_error + pyval" where
  "max_from m [] = Inr m"
| "max_from m (x # xs) =
     (case py_gt x m of Inl e \<Rightarrow> Inl e | Inr b \<Rightarrow> max_from (if b then x else m) xs)"

fun collect_scores :: "pydict \<Rightarrow> py_error + pyval list" where
  "collect_scores [] = Inr []"
| "collect_scores ((k, v) # d) =
     (case v of
        PDict kvs \<Rightarrow>
          (case map_of kvs ''risk_score'' of
             None \<Rightarrow> Inl (KeyError ''risk_score'')
           | Some x \<Rightarrow>
               (case collect_scores d of Inl e \<Rightarrow> Inl e | Inr xs \<Rightarrow> Inr (x # xs)))
      | _ \<Rightarrow> collect_scores d)"

definition has_detected :: "pyval \<Rightarrow> bool" where
  "has_detected v =
     (case v of PDict kvs \<Rightarrow> truthy (dict_get kvs ''detected'' PNone) | _ \<Rightarrow> False)"

definition attach_overall :: "pydict \<Rightarrow> py_error + pydict" where
  "attach_overall d =
     (case collect_scores d of
        Inl e \<Rightarrow> Inl e
      | Inr scores \<Rightarrow>
          (case (case scores of [] \<Rightarrow> Inr (PNum 0.0) | x # xs \<Rightarrow> max_from x xs) of
             Inl e \<Rightarrow> Inl e
           | Inr overall \<Rightarrow>
               (let d1 = dict_set d ''overall_risk_score'' overall in
                Inr (dict_set d1 ''attack_types''
                       (PList (map (\<lambda>(k, v). PStr k)
                                 (filter (\<lambda>(k, v). has_detected v) d1)))))))"

definition AttackDetectionAgent :: BaseAgent where
  "AttackDetectionAgent = \<lparr>agent_id = 1, name = ''AttackDetectionAgent''\<rparr>"

definition AttackDetectionAgent_run ::
    "caps \<Rightarrow> BaseAgent \<Rightarrow> string \<Rightarrow> string option \<Rightarrow> pydict comp" where
  "AttackDetectionAgent_run c self prompt response =
     bind (reason c self
             (''Prompt:\<newline>'' @ dq @ dq @ dq @ prompt @ dq @ dq @ dq @
              ''\<newline>\<newline>Response:\<newline>'' @ dq @ dq @ dq @
              (case response of None \<Rightarrow> [] | Some r \<Rightarrow> r) @ dq @ dq @ dq)
             (Some (''Return ONLY JSON with keys prompt_injection, jailbreaking, '' @
                    ''hallucination, llmjacking.''))) (\<lambda>raw.
     (let parsed = safe_json c raw in
      if truthy parsed
      then (case parsed of PDict d \<Rightarrow> lift (attach_overall d) | _ \<Rightarrow> throw AttributeError)
      else lift (attach_overall (heuristics prompt))))"

section \<open>langgraph\_core/firewall\_graph.py\<close>

definition BLOCK_T :: real where
  "BLOCK_T = 0.85"

definition FAST_T :: real where
  "FAST_T = 0.30"

subsection \<open>The nodes\<close>

text \<open>
  A node takes the state dictionary, mutates it and returns it; what it returns is
  \<open>Some s\<close>.  \<^verbatim>\<open>n_verify\<close> has no \<^verbatim>\<open>return\<close> statement: it returns \<^verbatim>\<open>None\<close>.
\<close>

definition n_analysis :: "caps \<Rightarrow> State \<Rightarrow> State option comp" where
  "n_analysis c s =
     bind (item s ''user_prompt'') (\<lambda>p.
     bind (InitialAnalysisAgent_run c p) (\<lambda>d.
     ret (Some (dict_update s d))))"

definition n_rewrite :: "caps \<Rightarrow> State \<Rightarrow> State option comp" where
  "n_rewrite c s =
     bind (item s ''user_prompt'') (\<lambda>p.
     bind (emit (RewriterRun p)) (\<lambda>_.
     bind (lift (rewriter_run c p)) (\<lambda>fp.
     ret (Some (s(''final_prompt'' \<mapsto> fp))))))"

definition n_passthrough :: "State \<Rightarrow> State option comp" where
  "n_passthrough s =
     bind (item s ''user_prompt'') (\<lambda>p.
     ret (Some (s(''final_prompt'' \<mapsto> p))))"

text \<open>The response text of \<^verbatim>\<open>n_block\<close> starts with the no-entry sign, three bytes in UTF-8.\<close>

definition n_block :: "State \<Rightarrow> State option comp" where
  "n_block s =
     ret (Some (dict_update s
       [(''final_prompt'', PStr ''[BLOCKED]''),
        (''llm_response'', PStr ([CHR 0xE2, CHR 0x9B, CHR 0x94] @ '' Blocked.'')),
        (''verdict'', PStr ''Rejected''),
        (''blockchain_log'', PBool True)]))"

definition n_llm :: "caps \<Rightarrow> State \<Rightarrow> State option comp" where
  "n_llm c s =
     (if \<not> truthy (get s ''llm_response'')
      then bind (item s ''final_prompt'') (\<lambda>fp.
           bind (call_llm c (fmt c fp) default_system_msg) (\<lambda>r.
           ret (Some (s(''llm_response'' \<mapsto> PStr r)))))
      else ret (Some s))"

text \<open>
  Leaving the \<^verbatim>\<open>with ThreadPoolExecutor(...)\<close> block shuts the pool down, on the normal
  and on the exceptional path.
\<close>

definition with_pool :: "nat \<Rightarrow> 'a comp \<Rightarrow> 'a comp" where
  "with_pool max_workers body =
     bind (emit (PoolEnter max_workers)) (\<lambda>_ w.
       case body w of (r, w') \<Rightarrow> (r, w'\<lparr>events := events w' @ [PoolExit]\<rparr>))"

text \<open>
  The body of \<^verbatim>\<open>n_verify\<close>, giving the dictionary \<open>s\<close> as the function leaves it.  A task
  submitted to the pool runs in a worker; its result, or the exception it raised,
  reaches the orchestrating control flow when the future is joined by \<^verbatim>\<open>.result()\<close>.
\<close>

definition n_verify_body :: "caps \<Rightarrow> State \<Rightarrow> State comp" where
  "n_verify_body c s =
     bind (item s ''final_prompt'') (\<lambda>p.
     bind (item s ''llm_response'') (\<lambda>r.
     with_pool 3 (
       bind (emit (Submit SearchTask p r)) (\<lambda>_.
       bind (emit (Submit CodeValidationTask p r)) (\<lambda>_.
       bind (emit (Join SearchTask)) (\<lambda>_.
       bind (lift (searcher_run c p r)) (\<lambda>search_results_update_dict.
       (let s1 = dict_update s search_results_update_dict in
        bind (ResponseVerifierAgent_run c ResponseVerifierAgent p r
                (get s1 ''web_search_results'')) (\<lambda>verifier_results_update_dict.
        (let s2 = dict_update s1 verifier_results_update_dict in
         bind (emit (Join CodeValidationTask)) (\<lambda>_.
         bind (lift (code_validator_run c p r)) (\<lambda>code_validation_result.
         ret (dict_update s2 code_validation_result)))))))))))))"

definition n_verify :: "caps \<Rightarrow> State \<Rightarrow> State option comp" where
  "n_verify c s = bind (n_verify_body c s) (\<lambda>_. ret None)"

definition n_fast :: "State \<Rightarrow> State option comp" where
  "n_fast s =
     ret (Some (dict_update s
       [(''verdict'', PStr ''Likely factual (Fast Verified)''),
        (''code_verdict'', PStr ''Skipped (Fast Path)'')]))"

definition n_audit :: "caps \<Rightarrow> State \<Rightarrow> State option comp" where
  "n_audit c s = bind (log_event c s) (\<lambda>_. ret (Some s))"

subsection \<open>The graph\<close>

text \<open>The two conditional edges: the function that picks a label, and the label's target.\<close>

definition analysis_route :: "State \<Rightarrow> py_error + pyval" where
  "analysis_route s =
     (case s ''classification'' of
        None \<Rightarrow> Inl (KeyError ''classification'')
      | Some cls \<Rightarrow>
          if cls = PStr ''Blocked'' then Inr (PStr ''Blocked'')
          else
            (case s ''risk_score'' of
               None \<Rightarrow> Inl (KeyError ''risk_score'')
             | Some x \<Rightarrow>
                 (case py_ge x BLOCK_T of
                    Inl e \<Rightarrow> Inl e
                  | Inr b \<Rightarrow> if b then Inr (PStr ''Blocked'') else Inr cls)))"

definition analysis_target :: "pyval \<Rightarrow> py_error + node" where
  "analysis_target label =
     (if label = PStr ''Safe'' then Inr Passthrough
      else if label = PStr ''Risky'' then Inr Rewrite
      else if label = PStr ''Blocked'' then Inr Block
      else Inl (KeyError ''path''))"

definition llm_route :: "State \<Rightarrow> py_error + node" where
  "llm_route s =
     (case s ''risk_score'' of
        None \<Rightarrow> Inl (KeyError ''risk_score'')
      | Some x \<Rightarrow>
          (case py_lt x FAST_T of
             Inl e \<Rightarrow> Inl e
           | Inr b \<Rightarrow> if b then Inr Fast else Inr Verify))"

fun next_node :: "node \<Rightarrow> State \<Rightarrow> py_error + node" where
  "next_node Analysis s =
     (case analysis_route s of Inl e \<Rightarrow> Inl e | Inr label \<Rightarrow> analysis_target label)"
| "next_node Rewrite s = Inr Llm"
| "next_node Passthrough s = Inr Llm"
| "next_node Llm s = llm_route s"
| "next_node Block s = Inr Audit"
| "next_node Fast s = Inr Audit"
| "next_node Verify s = Inr Audit"
| "next_node Audit s = Inr End"
| "next_node End s = Inr End"

fun node_fn :: "caps \<Rightarrow> node \<Rightarrow> State \<Rightarrow> State option comp" where
  "node_fn c Analysis s = n_analysis c s"
| "node_fn c Rewrite s = n_rewrite c s"
| "node_fn c Passthrough s = n_passthrough s"
| "node_fn c Block s = n_block s"
| "node_fn c Llm s = n_llm c s"
| "node_fn c Verify s = n_verify c s"
| "node_fn c Fast s = n_fast s"
| "node_fn c Audit s = n_audit c s"
| "node_fn c End s = ret None"

text \<open>
  The compiled graph runs a node on the current state and merges the dictionary the
  node returns into it, key by key; a node that returns \<^verbatim>\<open>None\<close> changes nothing.  It
  streams the state after every node, follows the edge, and stops at \<^verbatim>\<open>END\<close>; a run of
  more steps than its recursion limit (25 by default) is an error.
\<close>

definition run_node :: "caps \<Rightarrow> node \<Rightarrow> State \<Rightarrow> State comp" where
  "run_node c n s =
     bind (emit (NodeEnter n)) (\<lambda>_.
     bind (node_fn c n s) (\<lambda>r.
     (let s' = (case r of None \<Rightarrow> s | Some u \<Rightarrow> s ++ u) in
      bind (emit (NodeDone n s')) (\<lambda>_. ret s'))))"

primrec exec :: "nat \<Rightarrow> caps \<Rightarrow> node \<Rightarrow> State \<Rightarrow> State comp" where
  "exec 0 c n s = (if n = End then ret s else throw GraphRecursionError)"
| "exec (Suc k) c n s =
     (if n = End then ret s
      else bind (run_node c n s) (\<lambda>s'.
           bind (lift (next_node n s')) (\<lambda>n'.
           exec k c n' s')))"

definition recursion_limit :: nat where
  "recursion_limit = 25"

definition invoke :: "caps \<Rightarrow> State \<Rightarrow> State comp" where
  "invoke c s = exec recursion_limit c Analysis s"

section \<open>app.py: the initial state\<close>

definition initial_graph_state :: "string \<Rightarrow> bool \<Rightarrow> string \<Rightarrow> State" where
  "initial_graph_state prompt paste_toggle pasted_llm_response =
     (if paste_toggle \<and> pasted_llm_response \<noteq> []
      then [''user_prompt'' \<mapsto> PStr prompt, ''llm_response'' \<mapsto> PStr pasted_llm_response]
      else [''user_prompt'' \<mapsto> PStr prompt])"

section \<open>The properties, as the specification words them\<close>

text \<open>
  A text contains a word case-insensitively when some stretch of it equals the word up
  to the case of its letters.
\<close>

definition contains_ci :: "string \<Rightarrow> string \<Rightarrow> bool" where
  "contains_ci needle hay = (\<exists>pre w post. hay = pre @ w @ post \<and> lower w = lower needle)"

text \<open>
  The audit predicate: the classification is Blocked or Risky, or the verdict
  case-insensitively contains \<^verbatim>\<open>hallucinat\<close>.
\<close>

definition audit_predicate :: "State \<Rightarrow> bool" where
  "audit_predicate e \<longleftrightarrow>
     e ''classification'' = Some (PStr ''Blocked'')
     \<or> e ''classification'' = Some (PStr ''Risky'')
     \<or> (\<exists>v. e ''verdict'' = Some (PStr v) \<and> contains_ci ''hallucinat'' v)"

text \<open>
  The declared types of the state's fields: a \<^verbatim>\<open>str\<close> field holds a string when it is
  present, a \<^verbatim>\<open>float\<close> field a number, and the search results are a dictionary or
  \<^verbatim>\<open>None\<close>.
\<close>

definition str_or_absent :: "pyval option \<Rightarrow> bool" where
  "str_or_absent x = (case x of None \<Rightarrow> True | Some (PStr v) \<Rightarrow> True | Some _ \<Rightarrow> False)"

definition float_or_absent :: "pyval option \<Rightarrow> bool" where
  "float_or_absent x = (case x of None \<Rightarrow> True | Some (PNum r) \<Rightarrow> True | Some _ \<Rightarrow> False)"


text \<open>
  What \<^verbatim>\<open>log_event\<close> can read of a state whatever its fields hold.  The verdict is
  readable when it is absent, a string, or a value that counts as false (for which the
  empty string is taken); anything else has no \<^verbatim>\<open>lower\<close>.  The risk score converts to a
  float when it is absent, a number, a boolean, or a string that \<^verbatim>\<open>float\<close> parses.
\<close>

definition verdict_readable :: "State \<Rightarrow> bool" where
  "verdict_readable e =
     (case e ''verdict'' of
        None \<Rightarrow> True
      | Some (PStr v) \<Rightarrow> True
      | Some v \<Rightarrow> \<not> truthy v)"

definition float_convertible :: "caps \<Rightarrow> pyval option \<Rightarrow> bool" where
  "float_convertible c x =
     (case x of
        None \<Rightarrow> True
      | Some (PNum r) \<Rightarrow> True
      | Some (PBool b) \<Rightarrow> True
      | Some (PStr s) \<Rightarrow> float_of_str c s \<noteq> None
      | Some _ \<Rightarrow> False)"


text \<open>
  A classified state holds the Classifier's judgment: a classification and a numeric
  risk score.  The block condition is the one of the routing decision.
\<close>

definition classified :: "State \<Rightarrow> bool" where
  "classified s \<longleftrightarrow> (\<exists>cls r. s ''classification'' = Some cls \<and> s ''risk_score'' = Some (PNum r))"

definition block_condition :: "State \<Rightarrow> bool" where
  "block_condition s \<longleftrightarrow>
     s ''classification'' = Some (PStr ''Blocked'')
     \<or> (\<exists>r. s ''risk_score'' = Some (PNum r) \<and> 0.85 \<le> r)"

text \<open>
  The Classifier's reply fails to decode into the expected shape when it is no JSON, no
  dictionary, or a dictionary without the key \<^verbatim>\<open>classification\<close>.
\<close>

definition decode_fails :: "caps \<Rightarrow> string \<Rightarrow> bool" where
  "decode_fails c out =
     (case json_loads c (strip out) of
        None \<Rightarrow> True
      | Some (PDict kvs) \<Rightarrow> map_of kvs ''classification'' = None
      | Some _ \<Rightarrow> True)"


text \<open>
  What the graph does after a node has returned with state \<open>s\<close>: it follows the edge and
  runs on from there, with \<open>k\<close> steps left.  \<open>final_field\<close> reads a field of the state a
  run returns.
\<close>

definition after_node :: "nat \<Rightarrow> caps \<Rightarrow> node \<Rightarrow> State \<Rightarrow> State comp" where
  "after_node k c n s = bind (lift (next_node n s)) (\<lambda>n'. exec k c n' s)"

definition final_field :: "(py_error + State) \<times> world \<Rightarrow> string \<Rightarrow> pyval option" where
  "final_field res k = (case fst res of Inl e \<Rightarrow> None | Inr s \<Rightarrow> s k)"

text \<open>The states that \<^verbatim>\<open>n_block\<close> and \<^verbatim>\<open>n_fast\<close> leave.\<close>

definition blocked :: "State \<Rightarrow> State" where
  "blocked s = dict_update s
       [(''final_prompt'', PStr ''[BLOCKED]''),
        (''llm_response'', PStr ([CHR 0xE2, CHR 0x9B, CHR 0x94] @ '' Blocked.'')),
        (''verdict'', PStr ''Rejected''),
        (''blockchain_log'', PBool True)]"

definition fast_verified :: "State \<Rightarrow> State" where
  "fast_verified s = dict_update s
       [(''verdict'', PStr ''Likely factual (Fast Verified)''),
        (''code_verdict'', PStr ''Skipped (Fast Path)'')]"

text \<open>The number of requests that have gone to the reasoning capability.\<close>

fun is_gemini_call :: "event \<Rightarrow> bool" where
  "is_gemini_call (GeminiCall json_mode text) = True"
| "is_gemini_call _ = False"

definition gemini_calls :: "world \<Rightarrow> nat" where
  "gemini_calls w = length (filter is_gemini_call (events w))"

text \<open>
  The events a computation has added to the log, and whether a task's future is joined
  before the response verifier is first run.
\<close>

definition added :: "world \<Rightarrow> world \<Rightarrow> event list" where
  "added w w' = drop (length (events w)) (events w')"

fun is_verifier_run :: "event \<Rightarrow> bool" where
  "is_verifier_run (VerifierRun p r sr) = True"
| "is_verifier_run _ = False"

definition joined_before_verifier :: "task \<Rightarrow> event list \<Rightarrow> bool" where
  "joined_before_verifier t evs \<longleftrightarrow> Join t \<in> set (takeWhile (\<lambda>e. \<not> is_verifier_run e) evs)"

text \<open>
  The states a run streams, one after every node.  A computation is quiet when it adds
  no such state to the log.
\<close>

fun node_state :: "event \<Rightarrow> State option" where
  "node_state (NodeDone n s) = Some s"
| "node_state _ = None"

definition streamed :: "event list \<Rightarrow> State list" where
  "streamed evs = List.map_filter node_state evs"

definition quiet :: "'a comp \<Rightarrow> bool" where
  "quiet f \<longleftrightarrow> (\<forall>w. \<exists>evs. events (snd (f w)) = events w @ evs \<and> streamed evs = [])"

text \<open>
  The Classifier's judgment as a function of the reply of the reasoning capability, and
  the range of a risk score: a number between 0 and 1.
\<close>

definition classifier_judgment :: "caps \<Rightarrow> string \<Rightarrow> pydict" where
  "classifier_judgment c out =
     (if decode_fails c out then parse_error_judgment
      else case json_loads c (strip out) of
             Some (PDict kvs) \<Rightarrow> kvs
           | _ \<Rightarrow> parse_error_judgment)"

definition in_unit_range :: "pyval option \<Rightarrow> bool" where
  "in_unit_range x = (case x of Some (PNum r) \<Rightarrow> 0 \<le> r \<and> r \<le> 1 | _ \<Rightarrow> False)"

text \<open>
  A signature matches a text when the text splits into stretches for the signature's
  pieces: a word takes a stretch that equals it up to the case of its letters, and
  \<^verbatim>\<open>.*\<close> a stretch without a newline.  A signature is found in a text when it matches
  some stretch of it, and a category is detected in a text when one of its signatures
  is found there.
\<close>

fun matches :: "rx list \<Rightarrow> string \<Rightarrow> bool" where
  "matches [] s \<longleftrightarrow> s = []"
| "matches (Lit w # rs) s \<longleftrightarrow> (\<exists>u v. s = u @ v \<and> lower u = lower w \<and> matches rs v)"
| "matches (DotStar # rs) s \<longleftrightarrow> (\<exists>u v. s = u @ v \<and> CHR 0x0A \<notin> set u \<and> matches rs v)"

definition sig_found :: "rx list \<Rightarrow> string \<Rightarrow> bool" where
  "sig_found rs text \<longleftrightarrow> (\<exists>pre m post. text = pre @ m @ post \<and> matches rs m)"

definition category_detected :: "string \<Rightarrow> string \<Rightarrow> bool" where
  "category_detected k text \<longleftrightarrow>
     (\<exists>sigs sig. map_of PATTERNS k = Some sigs \<and> sig \<in> set sigs \<and> sig_found sig text)"

text \<open>
  The categories of a report of the fallback judge, the risk score of a category, and
  the finding reported for a category of the signature table.
\<close>

definition categories :: "string list" where
  "categories = [''prompt_injection'', ''jailbreaking'', ''llmjacking'', ''hallucination'']"

definition category_risk :: "string \<Rightarrow> string \<Rightarrow> real" where
  "category_risk k text =
     (if k = ''hallucination'' then 0.0 else if category_detected k text then 0.8 else 0.1)"

definition finding :: "string \<Rightarrow> string \<Rightarrow> pyval" where
  "finding k text =
     PDict [(''detected'', PBool (category_detected k text)),
            (''risk_score'', PNum (category_risk k text)),
            (''reason'', PStr ''Pattern heuristic'')]"

definition report_field :: "py_error + pydict \<Rightarrow> string \<Rightarrow> pyval option" where
  "report_field res k = (case res of Inl e \<Rightarrow> None | Inr d \<Rightarrow> map_of d k)"

section \<open>Concrete capabilities for the examples\<close>

text \<open>
  A capability record for the worked examples: Gemini answers every request with the
  same reply (or raises the same error), the decoder knows one JSON text, and the
  agents return fixed results.
\<close>

definition example_json :: string where
  "example_json =
     ''{'' @ dq @ ''classification'' @ dq @ '': '' @ dq @ ''Safe'' @ dq @ '', '' @
     dq @ ''risk_score'' @ dq @ '': 5}''"

definition example_loads :: "string \<Rightarrow> pyval option" where
  "example_loads text =
     (if text = example_json
      then Some (PDict [(''classification'', PStr ''Safe''), (''risk_score'', PNum 5)])
      else None)"

definition example_caps :: "py_error + string \<Rightarrow> caps" where
  "example_caps reply =
     \<lparr>call_gemini = (\<lambda>json_mode text. reply),
      json_loads = example_loads,
      json_dumps = (\<lambda>v. ''{}''),
      json_dumps_indent = (\<lambda>v. ''{}''),
      py_str = (\<lambda>v. []),
      float_of_str = (\<lambda>s. None),
      utcnow_isoformat = ''2025-01-01T00:00:00'',
      rewriter_run = (\<lambda>p. Inr p),
      searcher_run = (\<lambda>p r. Inr [(''web_search_results'', PDict [])]),
      code_validator_run = (\<lambda>p r. Inr [(''code_verdict'', PStr ''Safe'')])\<rparr>"

definition w0 :: world where
  "w0 = \<lparr>events = [], cache = []\<rparr>"

section \<open>Basic facts\<close>

lemmas comp_defs = ret_def throw_def bind_def lift_def emit_def item_def

lemma lower_simps:
  "lower [] = []" "lower (x # xs) = to_lower x # lower xs"
  by (simp_all add: lower_def)

lemma str_in_sublist: "str_in n h = sublist n h"
  by (induction h) (auto simp: sublist_Cons_right)

lemma sublist_map_iff:
  "sublist (map f n) (map f h) \<longleftrightarrow> (\<exists>pre w post. h = pre @ w @ post \<and> map f w = map f n)"
proof
  assume "sublist (map f n) (map f h)"
  then obtain ps ss where "map f h = ps @ map f n @ ss"
    by (auto simp: sublist_def)
  then obtain pre rest where h1: "h = pre @ rest" "map f rest = map f n @ ss"
    by (metis map_eq_append_conv)
  then obtain w post where "rest = w @ post" "map f w = map f n"
    by (metis map_eq_append_conv)
  with h1 show "\<exists>pre w post. h = pre @ w @ post \<and> map f w = map f n"
    by blast
next
  assume "\<exists>pre w post. h = pre @ w @ post \<and> map f w = map f n"
  then obtain pre w post where "h = pre @ w @ post" "map f w = map f n"
    by blast
  then show "sublist (map f n) (map f h)"
    by (auto simp: sublist_def)
qed

lemma contains_ci_code: "contains_ci n h = str_in (lower n) (lower h)"
  unfolding contains_ci_def str_in_sublist lower_def sublist_map_iff by auto

lemma dict_update_map_add: "dict_update s d = s ++ map_of (rev d)"
proof (induction d arbitrary: s)
  case Nil
  then show ?case by simp
next
  case (Cons kv d)
  obtain k v where kv: "kv = (k, v)" by (cases kv)
  have "dict_update s (kv # d) = s(k \<mapsto> v) ++ map_of (rev d)"
    by (simp only: kv dict_update.simps Cons.IH[of "s(k \<mapsto> v)"])
  also have "\<dots> = s ++ map_of (rev (kv # d))"
    by (rule ext) (simp add: kv map_add_def split: option.split)
  finally show ?case .
qed

lemma merge_dict_update: "s ++ dict_update s d = dict_update s d"
  by (rule ext) (simp add: dict_update_map_add map_add_def split: option.split)

lemma merge_upd: "s ++ s(k \<mapsto> v) = s(k \<mapsto> v)"
  by (rule ext) (simp add: map_add_def split: option.split)

lemma merge_self: "s ++ s = (s::State)"
  by (rule ext) (simp add: map_add_def split: option.split)

lemma strip_not_json: "strip ''not json'' = ''not json''"
  by (simp add: strip_def is_space_def)

lemma example_loads_not_json: "example_loads ''not json'' = None"
  by (simp add: example_loads_def example_json_def dq_def)

lemma example_loads_json:
  "example_loads example_json =
     Some (PDict [(''classification'', PStr ''Safe''), (''risk_score'', PNum 5)])"
  by (simp add: example_loads_def)

lemma strip_example_json: "strip example_json = example_json"
  by (simp add: strip_def is_space_def example_json_def dq_def)

section \<open>The audit gate\<close>

lemma lower_hallucinat: "lower ''hallucinat'' = ''hallucinat''"
  by (simp add: lower_def to_lower_def)

lemma should_log_absent:
  "e ''verdict'' = None \<Longrightarrow> should_log e = Inr (audit_predicate e)"
  by (simp add: should_log_def audit_predicate_def get_def get_default_def py_or_def
      lower_simps split: option.split)

lemma should_log_str:
  "e ''verdict'' = Some (PStr v) \<Longrightarrow> should_log e = Inr (audit_predicate e)"
  by (simp add: should_log_def audit_predicate_def get_def get_default_def py_or_def
      lower_simps(1) contains_ci_code lower_hallucinat split: option.split)

lemma should_log_typed:
  assumes "str_or_absent (e ''verdict'')"
  shows "should_log e = Inr (audit_predicate e)"
proof (cases "e ''verdict''")
  case None
  then show ?thesis by (rule should_log_absent)
next
  case (Some x)
  with assms obtain v where "x = PStr v"
    by (cases x) (simp_all add: str_or_absent_def)
  with Some show ?thesis by (simp add: should_log_str)
qed

lemma py_float_typed:
  "float_or_absent (e ''risk_score'') \<Longrightarrow>
     \<exists>r. py_float c (get_default e ''risk_score'' (PNum 0)) = Inr r"
  by (cases "e ''risk_score''")
     (auto simp: float_or_absent_def py_float_def get_default_def split: pyval.splits)

lemma log_event_typed:
  assumes "str_or_absent (e ''verdict'')" and "float_or_absent (e ''risk_score'')"
  shows "\<exists>row. log_event c e w =
           (Inr (), w\<lparr>events := events w @
                       (if audit_predicate e then [AuditThreadStart row] else [])\<rparr>)"
proof -
  from assms(2) obtain r where r: "py_float c (get_default e ''risk_score'' (PNum 0)) = Inr r"
    using py_float_typed by blast
  have s: "should_log e = Inr (audit_predicate e)"
    using assms(1) by (rule should_log_typed)
  show ?thesis
    by (cases "audit_predicate e") (auto simp add: log_event_def s r comp_defs Let_def)
qed

lemma typed_readable: "str_or_absent (e ''verdict'') \<Longrightarrow> verdict_readable e"
  by (auto simp: str_or_absent_def verdict_readable_def split: option.splits pyval.splits)

lemma typed_convertible: "float_or_absent x \<Longrightarrow> float_convertible c x"
  by (auto simp: float_or_absent_def float_convertible_def split: option.splits pyval.splits)













section \<open>The Classifier's fallback\<close>

lemma analysis_run_decode_fails:
  assumes "call_gemini c True (PROMPT_format (escape_quotes p)) = Inr out"
    and "decode_fails c out"
  shows "InitialAnalysisAgent_run c (PStr p) w =
           (Inr parse_error_judgment,
            w\<lparr>events := events w @ [GeminiCall True (PROMPT_format (escape_quotes p))]\<rparr>)"
  using assms
  by (auto simp: InitialAnalysisAgent_run_def call_llm_with_json_response_def comp_defs
      decode_fails_def Let_def split: option.splits pyval.splits)


lemma example_decode_fails: "decode_fails (example_caps (Inr ''not json'')) ''not json''"
  by (simp add: decode_fails_def example_caps_def strip_not_json example_loads_not_json)




section \<open>The response verifier's default\<close>





section \<open>The graph: routing, the block branch and the fast path\<close>

lemma after_node_abs:
  "(\<lambda>s'. bind (lift (next_node n s')) (\<lambda>n'. exec k c n' s')) = after_node k c n"
  by (rule ext) (simp add: after_node_def)

lemma exec_Suc_after:
  "exec (Suc k) c n s = (if n = End then ret s else bind (run_node c n s) (after_node k c n))"
  by (simp add: after_node_abs)

lemma exec_End: "exec k c End s = ret s"
  by (cases k) simp_all

lemma invoke_after:
  "invoke c s = bind (run_node c Analysis s) (after_node 24 c Analysis)"
proof -
  have "exec recursion_limit c Analysis s = exec (Suc 24) c Analysis s"
    by (simp add: recursion_limit_def)
  also have "\<dots> = bind (run_node c Analysis s) (after_node 24 c Analysis)"
    by (simp only: exec_Suc_after) simp
  finally show ?thesis
    by (simp add: invoke_def)
qed

lemma run_node_Audit:
  assumes "str_or_absent (s ''verdict'')" and "float_or_absent (s ''risk_score'')"
  shows "\<exists>row. run_node c Audit s w =
           (Inr s, w\<lparr>events := events w @ [NodeEnter Audit] @
                       (if audit_predicate s then [AuditThreadStart row] else []) @
                       [NodeDone Audit s]\<rparr>)"
proof -
  from log_event_typed[OF assms, of c "w\<lparr>events := events w @ [NodeEnter Audit]\<rparr>"]
  obtain row where "log_event c s (w\<lparr>events := events w @ [NodeEnter Audit]\<rparr>) =
      (Inr (), w\<lparr>events := events w @ [NodeEnter Audit] @
                       (if audit_predicate s then [AuditThreadStart row] else [])\<rparr>)"
    by auto
  then show ?thesis
    by (intro exI[of _ row]) (simp add: run_node_def n_audit_def comp_defs merge_self)
qed

lemma after_to_Audit:
  "next_node n s = Inr Audit \<Longrightarrow>
     after_node (Suc k) c n s = bind (run_node c Audit s) (\<lambda>s'. ret s')"
  by (simp add: after_node_def exec_End ret_def throw_def bind_def lift_def fun_eq_iff
      split: prod.split sum.split)

lemma run_then_audit:
  assumes "str_or_absent (s ''verdict'')" and "float_or_absent (s ''risk_score'')"
    and "next_node n s = Inr Audit"
  shows "\<exists>row. after_node (Suc k) c n s w =
           (Inr s, w\<lparr>events := events w @ [NodeEnter Audit] @
                       (if audit_predicate s then [AuditThreadStart row] else []) @
                       [NodeDone Audit s]\<rparr>)"
proof -
  from run_node_Audit[OF assms(1,2), of c w] obtain row where
    "run_node c Audit s w =
           (Inr s, w\<lparr>events := events w @ [NodeEnter Audit] @
                       (if audit_predicate s then [AuditThreadStart row] else []) @
                       [NodeDone Audit s]\<rparr>)"
    by blast
  then show ?thesis
    by (intro exI[of _ row]) (simp add: after_to_Audit[OF assms(3)] comp_defs)
qed

subsection \<open>The routing decision\<close>

lemma route_classified:
  assumes "s ''classification'' = Some cls" and "s ''risk_score'' = Some (PNum r)"
  shows "next_node Analysis s =
           (if cls = PStr ''Blocked'' \<or> 0.85 \<le> r then Inr Block else analysis_target cls)"
  using assms
  by (simp add: analysis_route_def analysis_target_def py_ge_def BLOCK_T_def)

lemma route_block_iff:
  assumes "classified s"
  shows "next_node Analysis s = Inr Block \<longleftrightarrow> block_condition s"
proof -
  from assms obtain cls r where
    c: "s ''classification'' = Some cls" and r: "s ''risk_score'' = Some (PNum r)"
    by (auto simp: classified_def)
  show ?thesis
    by (simp add: route_classified[OF c r] block_condition_def c r analysis_target_def
        del: next_node.simps)
qed



lemma run_node_Block:
  "run_node c Block s w =
     (Inr (blocked s), w\<lparr>events := events w @ [NodeEnter Block, NodeDone Block (blocked s)]\<rparr>)"
  by (simp add: run_node_def n_block_def comp_defs blocked_def merge_dict_update Let_def
      del: dict_update.simps)

lemma blocked_fields:
  "blocked s ''verdict'' = Some (PStr ''Rejected'')"
  "blocked s ''risk_score'' = s ''risk_score''"
  "blocked s ''classification'' = s ''classification''"
  by (simp_all add: blocked_def)

lemma block_branch:
  assumes "classified s" and "block_condition s"
  shows "\<exists>row. after_node (Suc (Suc k)) c Analysis s w =
           (Inr (blocked s),
            w\<lparr>events := events w @ [NodeEnter Block, NodeDone Block (blocked s), NodeEnter Audit] @
                (if audit_predicate (blocked s) then [AuditThreadStart row] else []) @
                [NodeDone Audit (blocked s)]\<rparr>)"
proof -
  have nb: "next_node Analysis s = Inr Block"
    using assms by (simp add: route_block_iff del: next_node.simps)
  have t1: "str_or_absent (blocked s ''verdict'')"
    by (simp add: blocked_fields str_or_absent_def)
  have t2: "float_or_absent (blocked s ''risk_score'')"
    using assms(1) by (auto simp: blocked_fields classified_def float_or_absent_def)
  have t3: "next_node Block (blocked s) = Inr Audit"
    by simp
  let ?w1 = "w\<lparr>events := events w @ [NodeEnter Block, NodeDone Block (blocked s)]\<rparr>"
  from run_then_audit[OF t1 t2 t3, of k c ?w1] obtain row where
    a: "after_node (Suc k) c Block (blocked s) ?w1 =
           (Inr (blocked s), ?w1\<lparr>events := events ?w1 @ [NodeEnter Audit] @
                       (if audit_predicate (blocked s) then [AuditThreadStart row] else []) @
                       [NodeDone Audit (blocked s)]\<rparr>)"
    by blast
  have "after_node (Suc (Suc k)) c Analysis s w = after_node (Suc k) c Block (blocked s) ?w1"
    by (simp add: after_node_def[of "Suc (Suc k)"] nb exec_Suc_after run_node_Block
        ret_def throw_def bind_def lift_def del: next_node.simps exec.simps)
  with a show ?thesis
    by (intro exI[of _ row]) simp
qed


lemma analysis_example:
  "run_node (example_caps (Inr example_json)) Analysis (initial_graph_state ''hi'' False []) w0 =
     (Inr [''user_prompt'' \<mapsto> PStr ''hi'', ''classification'' \<mapsto> PStr ''Safe'',
           ''risk_score'' \<mapsto> PNum 5],
      w0\<lparr>events := [NodeEnter Analysis, GeminiCall True (PROMPT_format (escape_quotes ''hi'')),
                    NodeDone Analysis [''user_prompt'' \<mapsto> PStr ''hi'',
                       ''classification'' \<mapsto> PStr ''Safe'', ''risk_score'' \<mapsto> PNum 5]]\<rparr>)"
  by (simp add: run_node_def n_analysis_def InitialAnalysisAgent_run_def
      call_llm_with_json_response_def comp_defs initial_graph_state_def example_caps_def
      strip_example_json example_loads_json w0_def Let_def merge_upd)


subsection \<open>The fast path\<close>

lemma run_node_Fast:
  "run_node c Fast s w =
     (Inr (fast_verified s),
      w\<lparr>events := events w @ [NodeEnter Fast, NodeDone Fast (fast_verified s)]\<rparr>)"
  by (simp add: run_node_def n_fast_def comp_defs fast_verified_def merge_dict_update Let_def
      del: dict_update.simps)

lemma fast_verified_fields:
  "fast_verified s ''verdict'' = Some (PStr ''Likely factual (Fast Verified)'')"
  "fast_verified s ''code_verdict'' = Some (PStr ''Skipped (Fast Path)'')"
  "fast_verified s ''risk_score'' = s ''risk_score''"
  "fast_verified s ''classification'' = s ''classification''"
  by (simp_all add: fast_verified_def)

lemma route_llm:
  assumes "s ''risk_score'' = Some (PNum r)"
  shows "next_node Llm s = Inr (if r < 0.30 then Fast else Verify)"
  using assms by (simp add: llm_route_def py_lt_def FAST_T_def)

lemma fast_branch:
  assumes "s ''risk_score'' = Some (PNum r)" and "r < 0.30"
  shows "\<exists>row. after_node (Suc (Suc k)) c Llm s w =
           (Inr (fast_verified s),
            w\<lparr>events := events w @
                [NodeEnter Fast, NodeDone Fast (fast_verified s), NodeEnter Audit] @
                (if audit_predicate (fast_verified s) then [AuditThreadStart row] else []) @
                [NodeDone Audit (fast_verified s)]\<rparr>)"
proof -
  have nb: "next_node Llm s = Inr Fast"
    using assms by (simp add: route_llm del: next_node.simps)
  have t1: "str_or_absent (fast_verified s ''verdict'')"
    by (simp add: fast_verified_fields str_or_absent_def)
  have t2: "float_or_absent (fast_verified s ''risk_score'')"
    using assms(1) by (simp add: fast_verified_fields float_or_absent_def)
  have t3: "next_node Fast (fast_verified s) = Inr Audit"
    by simp
  let ?w1 = "w\<lparr>events := events w @ [NodeEnter Fast, NodeDone Fast (fast_verified s)]\<rparr>"
  from run_then_audit[OF t1 t2 t3, of k c ?w1] obtain row where
    a: "after_node (Suc k) c Fast (fast_verified s) ?w1 =
           (Inr (fast_verified s), ?w1\<lparr>events := events ?w1 @ [NodeEnter Audit] @
                       (if audit_predicate (fast_verified s) then [AuditThreadStart row] else []) @
                       [NodeDone Audit (fast_verified s)]\<rparr>)"
    by blast
  have "after_node (Suc (Suc k)) c Llm s w = after_node (Suc k) c Fast (fast_verified s) ?w1"
    by (simp add: after_node_def[of "Suc (Suc k)"] nb exec_Suc_after run_node_Fast
        ret_def throw_def bind_def lift_def del: next_node.simps exec.simps)
  with a show ?thesis
    by (intro exI[of _ row]) simp
qed

lemma verify_branch:
  assumes "s ''risk_score'' = Some (PNum r)" and "0.30 \<le> r"
  shows "after_node (Suc k) c Llm s = bind (run_node c Verify s) (after_node k c Verify)"
proof -
  have nb: "next_node Llm s = Inr Verify"
    using assms by (simp add: route_llm del: next_node.simps)
  show ?thesis
    by (rule ext)
       (simp add: after_node_def[of "Suc k"] nb exec_Suc_after ret_def throw_def bind_def lift_def
          del: next_node.simps exec.simps)
qed

text \<open>
  C3, as amended.  For every state that reaches the branch after the generator with a
  numeric risk score \<open>r\<close>: the branch selects the fast path exactly when \<open>r < 0.30\<close>.  On
  the fast path the run returns the state of \<^verbatim>\<open>n_fast\<close>, whose verdict is \<^verbatim>\<open>Likely factual
  (Fast Verified)\<close> and whose code verdict is \<^verbatim>\<open>Skipped (Fast Path)\<close>, and only the fast
  node and the audit node are entered, so nothing is submitted to the search or the
  code validation.  For \<open>0.30 \<le> r\<close> the run continues with the verify node.
\<close>

theorem fast_path_decision:
  assumes "s ''risk_score'' = Some (PNum r)"
  shows "next_node Llm s = Inr (if r < 0.30 then Fast else Verify)
     \<and> (r < 0.30 \<longrightarrow>
          fast_verified s ''verdict'' = Some (PStr ''Likely factual (Fast Verified)'')
          \<and> fast_verified s ''code_verdict'' = Some (PStr ''Skipped (Fast Path)'')
          \<and> (\<exists>row. after_node (Suc (Suc k)) c Llm s w =
                (Inr (fast_verified s),
                 w\<lparr>events := events w @
                     [NodeEnter Fast, NodeDone Fast (fast_verified s), NodeEnter Audit] @
                     (if audit_predicate (fast_verified s) then [AuditThreadStart row] else []) @
                     [NodeDone Audit (fast_verified s)]\<rparr>)))
     \<and> (0.30 \<le> r \<longrightarrow>
          after_node (Suc k) c Llm s = bind (run_node c Verify s) (after_node k c Verify))"
  using route_llm[of s r, OF assms] fast_branch[of s r k c w, OF assms]
    verify_branch[of s r k c, OF assms]
  by (simp only: fast_verified_fields) blast

text \<open>A Safe state with risk score 0.1 takes the fast path; nothing is audited.\<close>

theorem fast_path_decision_witness:
  "after_node (Suc (Suc 0)) (example_caps (Inr []))
      Llm [''classification'' \<mapsto> PStr ''Safe'', ''risk_score'' \<mapsto> PNum 0.1] w0
    = (Inr (fast_verified [''classification'' \<mapsto> PStr ''Safe'', ''risk_score'' \<mapsto> PNum 0.1]),
       w0\<lparr>events :=
           [NodeEnter Fast,
            NodeDone Fast (fast_verified [''classification'' \<mapsto> PStr ''Safe'', ''risk_score'' \<mapsto> PNum 0.1]),
            NodeEnter Audit,
            NodeDone Audit (fast_verified [''classification'' \<mapsto> PStr ''Safe'', ''risk_score'' \<mapsto> PNum 0.1])]\<rparr>)"
proof -
  let ?s = "[''classification'' \<mapsto> PStr ''Safe'', ''risk_score'' \<mapsto> PNum 0.1]"
  have r: "?s ''risk_score'' = Some (PNum 0.1)"
    by simp
  have na: "\<not> audit_predicate (fast_verified ?s)"
    by (simp add: audit_predicate_def fast_verified_fields contains_ci_code lower_simps
        to_lower_def)
  from fast_path_decision[of ?s "0.1" 0 "example_caps (Inr [])" w0, OF r] na
  show ?thesis
    by (simp add: w0_def)
qed

text \<open>
  The claim as stated fails on the two texts: the fast path sets neither the verdict
  \<^verbatim>\<open>FastVerified\<close> nor the code verdict \<^verbatim>\<open>Skipped\<close>.
\<close>

theorem fast_path_decision_counterexample:
  "final_field (after_node (Suc (Suc 0)) (example_caps (Inr []))
      Llm [''classification'' \<mapsto> PStr ''Safe'', ''risk_score'' \<mapsto> PNum 0.1] w0) ''verdict''
     = Some (PStr ''Likely factual (Fast Verified)'')
   \<and> final_field (after_node (Suc (Suc 0)) (example_caps (Inr []))
      Llm [''classification'' \<mapsto> PStr ''Safe'', ''risk_score'' \<mapsto> PNum 0.1] w0) ''verdict''
     \<noteq> Some (PStr ''FastVerified'')
   \<and> final_field (after_node (Suc (Suc 0)) (example_caps (Inr []))
      Llm [''classification'' \<mapsto> PStr ''Safe'', ''risk_score'' \<mapsto> PNum 0.1] w0) ''code_verdict''
     = Some (PStr ''Skipped (Fast Path)'')
   \<and> final_field (after_node (Suc (Suc 0)) (example_caps (Inr []))
      Llm [''classification'' \<mapsto> PStr ''Safe'', ''risk_score'' \<mapsto> PNum 0.1] w0) ''code_verdict''
     \<noteq> Some (PStr ''Skipped'')"
proof -
  let ?s = "[''classification'' \<mapsto> PStr ''Safe'', ''risk_score'' \<mapsto> PNum 0.1]"
  have r: "?s ''risk_score'' = Some (PNum 0.1)"
    by simp
  from fast_branch[of ?s "0.1" 0 "example_caps (Inr [])" w0, OF r]
  obtain w' where "after_node (Suc (Suc 0)) (example_caps (Inr [])) Llm ?s w0
      = (Inr (fast_verified ?s), w')"
    by auto
  then show ?thesis
    by (simp add: final_field_def fast_verified_fields)
qed

section \<open>The generator gateway\<close>

lemma call_llm_events:
  "events (snd (call_llm c prompt system_msg w)) =
     events w @ [GeminiCall False (system_msg @ [CHR 0x0A, CHR 0x0A] @ prompt)]"
  by (simp add: call_llm_def comp_defs Let_def split: sum.split)

lemma call_llm_cache: "cache (snd (call_llm c prompt system_msg w)) = cache w"
  by (simp add: call_llm_def comp_defs Let_def split: sum.split)

lemma n_llm_absent:
  assumes "s ''final_prompt'' = Some fp" and "s ''llm_response'' = None"
  shows "events (snd (n_llm c s w)) =
           events w @ [GeminiCall False (default_system_msg @ [CHR 0x0A, CHR 0x0A] @ fmt c fp)]"
  using assms call_llm_events[of c "fmt c fp" default_system_msg w]
  by (auto simp: n_llm_def get_def item_def ret_def throw_def bind_def
      split: prod.split sum.split)

lemma n_llm_str:
  assumes "s ''final_prompt'' = Some fp" and "s ''llm_response'' = Some (PStr x)"
  shows "events (snd (n_llm c s w)) =
           events w @ (if x = [] then
              [GeminiCall False (default_system_msg @ [CHR 0x0A, CHR 0x0A] @ fmt c fp)] else [])"
  using assms call_llm_events[of c "fmt c fp" default_system_msg w]
  by (auto simp: n_llm_def get_def item_def ret_def throw_def bind_def
      split: prod.split sum.split)

text \<open>
  C10.  For every state that reaches the generator node (it holds a final prompt, and its
  response is a string when present), \<^verbatim>\<open>n_llm\<close> sends a generation request, for the
  final prompt, exactly when the response is absent or the empty string; otherwise it
  sends nothing.  The entry point stores a pasted response only when it is non-empty, so
  an empty pasted response leaves the key absent.
\<close>

theorem generator_gateway:
  assumes "s ''final_prompt'' = Some fp" and "str_or_absent (s ''llm_response'')"
  shows "events (snd (n_llm c s w)) =
           events w @
           (if s ''llm_response'' = None \<or> s ''llm_response'' = Some (PStr [])
            then [GeminiCall False (default_system_msg @ [CHR 0x0A, CHR 0x0A] @ fmt c fp)]
            else [])
     \<and> initial_graph_state prompt paste_toggle [] ''llm_response'' = None"
proof (cases "s ''llm_response''")
  case None
  then show ?thesis
    using n_llm_absent[of s fp c w, OF assms(1)] by (simp add: initial_graph_state_def)
next
  case (Some v)
  with assms(2) obtain x where x: "v = PStr x"
    by (cases v) (simp_all add: str_or_absent_def)
  with Some have "s ''llm_response'' = Some (PStr x)"
    by simp
  from n_llm_str[of s fp x c w, OF assms(1) this] this show ?thesis
    by (simp add: initial_graph_state_def)
qed

text \<open>
  With the response present and empty a request goes out; with a response of one letter
  none does.
\<close>

theorem generator_gateway_witness:
  "events (snd (n_llm (example_caps (Inr ''ok''))
       [''final_prompt'' \<mapsto> PStr ''hi'', ''llm_response'' \<mapsto> PStr []] w0)) =
     [GeminiCall False (default_system_msg @ [CHR 0x0A, CHR 0x0A] @ ''hi'')]
   \<and> events (snd (n_llm (example_caps (Inr ''ok''))
       [''final_prompt'' \<mapsto> PStr ''hi'', ''llm_response'' \<mapsto> PStr ''x''] w0)) = []"
proof -
  let ?c = "example_caps (Inr ''ok'')"
  let ?s1 = "[''final_prompt'' \<mapsto> PStr ''hi'', ''llm_response'' \<mapsto> PStr []]"
  let ?s2 = "[''final_prompt'' \<mapsto> PStr ''hi'', ''llm_response'' \<mapsto> PStr ''x'']"
  have f1: "?s1 ''final_prompt'' = Some (PStr ''hi'')" and f2: "?s2 ''final_prompt'' = Some (PStr ''hi'')"
    by simp_all
  have t1: "str_or_absent (?s1 ''llm_response'')" and t2: "str_or_absent (?s2 ''llm_response'')"
    by (simp_all add: str_or_absent_def)
  from generator_gateway[of ?s1 "PStr ''hi''" ?c w0, OF f1 t1]
    generator_gateway[of ?s2 "PStr ''hi''" ?c w0, OF f2 t2]
  show ?thesis
    by (simp add: w0_def fmt_def)
qed

section \<open>The judgment cache\<close>

lemma cached_llm_hit:
  assumes "map_of (cache w) (agent_id a, p, m) = Some v"
  shows "cached_llm c a p m w =
           (Inr v, w\<lparr>cache := ((agent_id a, p, m), v) #
                        filter (\<lambda>e. fst e \<noteq> (agent_id a, p, m)) (cache w)\<rparr>)"
  using assms by (simp add: cached_llm_def Let_def)

lemma cached_llm_miss:
  assumes "map_of (cache w) (agent_id a, p, m) = None"
  shows "cached_llm c a p m w =
           (case call_gemini c False (m @ [CHR 0x0A, CHR 0x0A] @ p) of
              Inl e \<Rightarrow>
                (Inl e, w\<lparr>events := events w @ [GeminiCall False (m @ [CHR 0x0A, CHR 0x0A] @ p)]\<rparr>)
            | Inr out \<Rightarrow>
                (Inr (strip out),
                 w\<lparr>events := events w @ [GeminiCall False (m @ [CHR 0x0A, CHR 0x0A] @ p)],
                   cache := take maxsize (((agent_id a, p, m), strip out) # cache w)\<rparr>))"
  using assms by (simp add: cached_llm_def call_llm_def comp_defs Let_def split: sum.split)

lemma maxsize_Suc: "maxsize = Suc 255"
  by (simp add: maxsize_def)

lemma cached_llm_stored:
  assumes "cached_llm c a p m w = (Inr v, w1)"
  shows "map_of (cache w1) (agent_id a, p, m) = Some v"
proof (cases "map_of (cache w) (agent_id a, p, m)")
  case None
  from assms show ?thesis
    by (auto simp: cached_llm_miss[OF None] maxsize_Suc split: sum.splits)
next
  case (Some u)
  from assms show ?thesis
    by (auto simp: cached_llm_hit[OF Some])
qed

lemma cached_llm_calls:
  assumes "cached_llm c a p m w = (r, w1)"
  shows "gemini_calls w1 =
           gemini_calls w + (if map_of (cache w) (agent_id a, p, m) = None then 1 else 0)"
proof (cases "map_of (cache w) (agent_id a, p, m)")
  case None
  from assms show ?thesis
    by (auto simp: cached_llm_miss[OF None] gemini_calls_def None split: sum.splits)
next
  case (Some u)
  from assms show ?thesis
    by (auto simp: cached_llm_hit[OF Some] gemini_calls_def Some)
qed

lemma cached_llm_capacity:
  assumes "cached_llm c a p m w = (r, w1)" and "length (cache w) \<le> maxsize"
  shows "length (cache w1) \<le> maxsize"
proof (cases "map_of (cache w) (agent_id a, p, m)")
  case None
  from assms show ?thesis
    by (auto simp: cached_llm_miss[OF None] split: sum.splits)
next
  case (Some u)
  then have "((agent_id a, p, m), u) \<in> set (cache w)"
    by (rule map_of_SomeD)
  then have "length (filter (\<lambda>e. fst e \<noteq> (agent_id a, p, m)) (cache w)) < length (cache w)"
    by (intro length_filter_less[of "((agent_id a, p, m), u)"]) simp_all
  with assms show ?thesis
    by (auto simp: cached_llm_hit[OF Some])
qed

lemma cached_llm_absent_kept:
  assumes "cached_llm c a p m w = (r, w1)" and "map_of (cache w) k = None"
    and "k \<noteq> (agent_id a, p, m)"
  shows "map_of (cache w1) k = None"
proof -
  from assms(2) have k: "k \<notin> fst ` set (cache w)"
    by (simp add: map_of_eq_None_iff)
  have sub: "set (cache w1) \<subseteq> insert ((agent_id a, p, m), v) (set (cache w))"
    if "r = Inr v" for v
  proof (cases "map_of (cache w) (agent_id a, p, m)")
    case None
    from assms(1) that
      set_take_subset[of maxsize "((agent_id a, p, m), v) # cache w"]
    show ?thesis
      by (auto simp: cached_llm_miss[OF None] split: sum.splits)
  next
    case (Some u)
    from assms(1) that show ?thesis
      by (auto simp: cached_llm_hit[OF Some])
  qed
  show ?thesis
  proof (cases r)
    case (Inl e)
    from assms(1) Inl have "cache w1 = cache w"
      by (cases "map_of (cache w) (agent_id a, p, m)")
         (auto simp: cached_llm_miss cached_llm_hit split: sum.splits)
    with assms(2) show ?thesis by simp
  next
    case (Inr v)
    from sub[OF Inr] k assms(3) have "k \<notin> fst ` set (cache w1)"
      by auto
    then show ?thesis
      by (simp add: map_of_eq_None_iff)
  qed
qed

lemma cached_llm_evicts:
  assumes "cached_llm c a p m w = (Inr v, w1)"
    and "map_of (cache w) (agent_id a, p, m) = None" and "length (cache w) = maxsize"
  shows "cache w1 = ((agent_id a, p, m), v) # butlast (cache w)"
  using assms
  by (auto simp: cached_llm_miss maxsize_Suc butlast_conv_take split: sum.splits)

lemma cached_llm_returned:
  assumes "cached_llm c a p m w = (Inr v, w1)"
  shows "cached_llm c a p m w1 =
           (Inr v, w1\<lparr>cache := ((agent_id a, p, m), v) #
                         filter (\<lambda>e. fst e \<noteq> (agent_id a, p, m)) (cache w1)\<rparr>)
     \<and> gemini_calls (snd (cached_llm c a p m w1)) \<le> gemini_calls w + 1
     \<and> (m' \<noteq> m \<and> map_of (cache w) (agent_id a, p, m') = None \<longrightarrow>
          gemini_calls (snd (cached_llm c a p m' (snd (cached_llm c a p m w1)))) =
            gemini_calls (snd (cached_llm c a p m w1)) + 1)
     \<and> (length (cache w) \<le> maxsize \<longrightarrow> length (cache w1) \<le> maxsize)
     \<and> (map_of (cache w) (agent_id a, p, m) = None \<and> length (cache w) = maxsize \<longrightarrow>
          cache w1 = ((agent_id a, p, m), v) # butlast (cache w))"
proof -
  let ?k = "(agent_id a, p, m)"
  let ?w2 = "snd (cached_llm c a p m w1)"
  have stored: "map_of (cache w1) ?k = Some v"
    using assms by (rule cached_llm_stored)
  have second: "cached_llm c a p m w1 =
      (Inr v, w1\<lparr>cache := (?k, v) # filter (\<lambda>e. fst e \<noteq> ?k) (cache w1)\<rparr>)"
    using stored by (rule cached_llm_hit)
  have c1: "gemini_calls w1 \<le> gemini_calls w + 1"
    using cached_llm_calls[OF assms] by simp
  have c2: "gemini_calls ?w2 = gemini_calls w1"
    by (simp add: second gemini_calls_def)
  have third: "gemini_calls (snd (cached_llm c a p m' ?w2)) = gemini_calls ?w2 + 1"
    if "m' \<noteq> m" and "map_of (cache w) (agent_id a, p, m') = None"
  proof -
    from that(1) have ne: "(agent_id a, p, m') \<noteq> ?k"
      by simp
    have n1: "map_of (cache w1) (agent_id a, p, m') = None"
      using cached_llm_absent_kept[OF assms that(2) ne] .
    have sec: "cached_llm c a p m w1 = (Inr v, ?w2)"
      by (simp add: second)
    have n2: "map_of (cache ?w2) (agent_id a, p, m') = None"
      by (rule cached_llm_absent_kept[OF sec n1 ne])
    have "gemini_calls (snd (cached_llm c a p m' ?w2)) =
        gemini_calls ?w2 + (if map_of (cache ?w2) (agent_id a, p, m') = None then 1 else 0)"
      by (rule cached_llm_calls[OF surjective_pairing])
    with n2 show ?thesis
      by simp
  qed
  show ?thesis
    using second c1 c2 third cached_llm_capacity[OF assms] cached_llm_evicts[OF assms]
    by simp
qed

lemma cached_llm_raised:
  assumes "cached_llm c a p m w = (Inl e, w1)"
  shows "cache w1 = cache w"
    and "map_of (cache w1) (agent_id a, p, m) = None"
    and "gemini_calls w1 = gemini_calls w + 1"
    and "gemini_calls (snd (cached_llm c a p m w1)) = gemini_calls w1 + 1"
proof -
  have none: "map_of (cache w) (agent_id a, p, m) = None"
  proof (cases "map_of (cache w) (agent_id a, p, m)")
    case None
    then show ?thesis .
  next
    case (Some u)
    with assms show ?thesis
      by (simp add: cached_llm_hit[OF Some])
  qed
  from assms show c: "cache w1 = cache w"
    by (auto simp: cached_llm_miss[OF none] split: sum.splits)
  with none show n1: "map_of (cache w1) (agent_id a, p, m) = None"
    by simp
  from cached_llm_calls[OF assms] none show "gemini_calls w1 = gemini_calls w + 1"
    by simp
  have "gemini_calls (snd (cached_llm c a p m w1)) =
      gemini_calls w1 + (if map_of (cache w1) (agent_id a, p, m) = None then 1 else 0)"
    by (rule cached_llm_calls[OF surjective_pairing])
  with n1 show "gemini_calls (snd (cached_llm c a p m w1)) = gemini_calls w1 + 1"
    by simp
qed

text \<open>
  C9, as amended.  The cache holds at most 256 entries, keyed by the agent, the request
  text and the instruction text; a miss on a full cache drops the least recently used
  entry (the last one).  When a call through one agent returns a result, a second call
  with the same texts returns the same result from the cache and sends no request to the
  reasoning capability, so the two calls send at most one; a following call with a
  different instruction that is not cached sends a request again.  When a call raises,
  it has sent a request and stored nothing: the cache is as it was, the key is still
  absent, and a second call with the same texts sends a request again.
\<close>

theorem judgment_cache:
  "(cached_llm c a p m w = (Inr v, w1) \<longrightarrow>
      cached_llm c a p m w1 =
           (Inr v, w1\<lparr>cache := ((agent_id a, p, m), v) #
                         filter (\<lambda>e. fst e \<noteq> (agent_id a, p, m)) (cache w1)\<rparr>)
     \<and> gemini_calls (snd (cached_llm c a p m w1)) \<le> gemini_calls w + 1
     \<and> (m' \<noteq> m \<and> map_of (cache w) (agent_id a, p, m') = None \<longrightarrow>
          gemini_calls (snd (cached_llm c a p m' (snd (cached_llm c a p m w1)))) =
            gemini_calls (snd (cached_llm c a p m w1)) + 1)
     \<and> (length (cache w) \<le> maxsize \<longrightarrow> length (cache w1) \<le> maxsize)
     \<and> (map_of (cache w) (agent_id a, p, m) = None \<and> length (cache w) = maxsize \<longrightarrow>
          cache w1 = ((agent_id a, p, m), v) # butlast (cache w)))
   \<and> (cached_llm c a p m w = (Inl err, w1) \<longrightarrow>
      cache w1 = cache w
     \<and> map_of (cache w1) (agent_id a, p, m) = None
     \<and> gemini_calls w1 = gemini_calls w + 1
     \<and> gemini_calls (snd (cached_llm c a p m w1)) = gemini_calls w1 + 1)"
  using cached_llm_returned[of c a p m w v w1 m'] cached_llm_raised[of c a p m w err w1]
  by blast

lemma strip_ok: "strip ''ok'' = ''ok''"
  by (simp add: strip_def is_space_def)

text \<open>
  From the empty cache: two calls with the same texts send one request, a third with
  another instruction sends the second.  With a capability that raises, the first call
  leaves the cache empty and the second sends a request again.
\<close>

theorem judgment_cache_witness:
  "gemini_calls (snd (cached_llm (example_caps (Inr ''ok'')) ResponseVerifierAgent ''q'' ''i''
      (snd (cached_llm (example_caps (Inr ''ok'')) ResponseVerifierAgent ''q'' ''i'' w0)))) \<le> 1
   \<and> gemini_calls (snd (cached_llm (example_caps (Inr ''ok'')) ResponseVerifierAgent ''q'' ''j''
      (snd (cached_llm (example_caps (Inr ''ok'')) ResponseVerifierAgent ''q'' ''i''
      (snd (cached_llm (example_caps (Inr ''ok'')) ResponseVerifierAgent ''q'' ''i'' w0)))))) =
     gemini_calls (snd (cached_llm (example_caps (Inr ''ok'')) ResponseVerifierAgent ''q'' ''i''
      (snd (cached_llm (example_caps (Inr ''ok'')) ResponseVerifierAgent ''q'' ''i'' w0)))) + 1
   \<and> cache (snd (cached_llm (example_caps (Inl (CapabilityError ''unreachable'')))
        ResponseVerifierAgent ''q'' ''i'' w0)) = []
   \<and> gemini_calls (snd (cached_llm (example_caps (Inl (CapabilityError ''unreachable'')))
        ResponseVerifierAgent ''q'' ''i''
        (snd (cached_llm (example_caps (Inl (CapabilityError ''unreachable'')))
           ResponseVerifierAgent ''q'' ''i'' w0)))) =
     gemini_calls (snd (cached_llm (example_caps (Inl (CapabilityError ''unreachable'')))
        ResponseVerifierAgent ''q'' ''i'' w0)) + 1"
proof -
  let ?c = "example_caps (Inr ''ok'')"
  let ?d = "example_caps (Inl (CapabilityError ''unreachable''))"
  let ?a = "ResponseVerifierAgent"
  have "fst (cached_llm ?c ?a ''q'' ''i'' w0) = Inr ''ok''"
    by (simp add: cached_llm_def call_llm_def comp_defs w0_def example_caps_def strip_ok Let_def)
  then have first: "cached_llm ?c ?a ''q'' ''i'' w0 =
      (Inr ''ok'', snd (cached_llm ?c ?a ''q'' ''i'' w0))"
    by (metis prod.collapse)
  have "fst (cached_llm ?d ?a ''q'' ''i'' w0) = Inl (CapabilityError ''unreachable'')"
    by (simp add: cached_llm_def call_llm_def comp_defs w0_def example_caps_def Let_def)
  then have raised: "cached_llm ?d ?a ''q'' ''i'' w0 =
      (Inl (CapabilityError ''unreachable''), snd (cached_llm ?d ?a ''q'' ''i'' w0))"
    by (metis prod.collapse)
  have g0: "gemini_calls w0 = 0"
    by (simp add: gemini_calls_def w0_def)
  have c0: "cache w0 = []"
    by (simp add: w0_def)
  have ne: "''j'' \<noteq> ''i''" and none: "map_of (cache w0) (agent_id ?a, ''q'', ''j'') = None"
    by (simp_all add: w0_def)
  let ?w1 = "snd (cached_llm ?c ?a ''q'' ''i'' w0)"
  let ?w2 = "snd (cached_llm ?c ?a ''q'' ''i'' ?w1)"
  let ?u1 = "snd (cached_llm ?d ?a ''q'' ''i'' w0)"
  note jc = judgment_cache[of ?c ?a "''q''" "''i''" w0 "''ok''" ?w1 "''j''"
      "CapabilityError ''unreachable''"]
  note jd = judgment_cache[of ?d ?a "''q''" "''i''" w0 "''ok''" ?u1 "''j''"
      "CapabilityError ''unreachable''"]
  from jc first have a: "gemini_calls ?w2 \<le> gemini_calls w0 + 1"
    by blast
  from jc first ne none
  have b: "gemini_calls (snd (cached_llm ?c ?a ''q'' ''j'' ?w2)) = gemini_calls ?w2 + 1"
    by blast
  from jd raised have c: "cache ?u1 = cache w0"
    and d: "gemini_calls (snd (cached_llm ?d ?a ''q'' ''i'' ?u1)) = gemini_calls ?u1 + 1"
    by blast+
  from a b c d g0 c0 show ?thesis
    by (simp only: add_0 simp_thms)
qed

text \<open>
  The claim as stated fails when the capability raises: nothing is stored, and two calls
  with the same texts send two requests.
\<close>

theorem judgment_cache_counterexample:
  "gemini_calls (snd (cached_llm (example_caps (Inl (CapabilityError ''unreachable'')))
      ResponseVerifierAgent ''q'' ''i''
      (snd (cached_llm (example_caps (Inl (CapabilityError ''unreachable'')))
         ResponseVerifierAgent ''q'' ''i'' w0)))) = 2"
  by (simp add: cached_llm_def call_llm_def comp_defs w0_def example_caps_def Let_def
      gemini_calls_def)

section \<open>The verification coordinator\<close>

lemma cached_llm_events:
  "\<exists>more. events (snd (cached_llm c a p m w)) = events w @ more \<and> list_all is_gemini_call more"
proof (cases "map_of (cache w) (agent_id a, p, m)")
  case None
  show ?thesis
    by (cases "call_gemini c False (m @ [CHR 0x0A, CHR 0x0A] @ p)")
       (simp_all add: cached_llm_miss[OF None])
next
  case (Some v)
  show ?thesis
    by (simp add: cached_llm_hit[OF Some])
qed

lemma verifier_events:
  "\<exists>more. events (snd (ResponseVerifierAgent_run c a p r sr w)) =
            events w @ VerifierRun p r sr # more \<and> list_all is_gemini_call more"
proof (cases "search_context c (if sr = PNone then PDict [] else sr)")
  case (Inl e)
  then show ?thesis
    by (simp add: ResponseVerifierAgent_run_def comp_defs Let_def)
next
  case (Inr x)
  let ?w1 = "w\<lparr>events := events w @ [VerifierRun p r sr]\<rparr>"
  let ?call = "reason c a (context_for_verifier_llm c p r x) (Some instruction_for_verifier_llm)"
  from cached_llm_events obtain more where
    m: "events (snd (?call ?w1)) = events ?w1 @ more" "list_all is_gemini_call more"
    unfolding reason_def by blast
  have "snd (ResponseVerifierAgent_run c a p r sr w) = snd (?call ?w1)"
    by (simp add: ResponseVerifierAgent_run_def comp_defs Let_def Inr
        split: prod.split sum.split pyval.split)
  with m show ?thesis
    by (intro exI[of _ more]) simp
qed

lemma n_verify_body_success:
  assumes "s ''final_prompt'' = Some p" and "s ''llm_response'' = Some r"
    and "searcher_run c p r = Inr d1"
    and "ResponseVerifierAgent_run c ResponseVerifierAgent p r
           (get (dict_update s d1) ''web_search_results'')
           (w\<lparr>events := events w @
               [PoolEnter 3, Submit SearchTask p r, Submit CodeValidationTask p r,
                Join SearchTask]\<rparr>) = (Inr d2, w2)"
    and "code_validator_run c p r = Inr d3"
  shows "n_verify_body c s w =
           (Inr (dict_update (dict_update (dict_update s d1) d2) d3),
            w2\<lparr>events := events w2 @ [Join CodeValidationTask, PoolExit]\<rparr>)"
  using assms
  by (simp add: n_verify_body_def with_pool_def comp_defs Let_def)

text \<open>
  C6, as amended.  When the two independent checks and the verifier succeed,
  \<^verbatim>\<open>n_verify\<close> enters a worker pool of size 3 and submits the search and the code
  validation before it joins either; it joins the search, merges its result into the
  state and only then runs the response verifier, which receives the search results of
  the merged state; the code validation is joined, and merged, after the verifier has
  returned.  Between the two joins the log holds the verifier's run and nothing but its
  requests to the reasoning capability.
\<close>

theorem verification_order:
  assumes "s ''final_prompt'' = Some p" and "s ''llm_response'' = Some r"
    and "searcher_run c p r = Inr d1"
    and "ResponseVerifierAgent_run c ResponseVerifierAgent p r
           (get (dict_update s d1) ''web_search_results'')
           (w\<lparr>events := events w @
               [PoolEnter 3, Submit SearchTask p r, Submit CodeValidationTask p r,
                Join SearchTask]\<rparr>) = (Inr d2, w2)"
    and "code_validator_run c p r = Inr d3"
  shows "fst (n_verify_body c s w) = Inr (dict_update (dict_update (dict_update s d1) d2) d3)
     \<and> (\<exists>more. list_all is_gemini_call more
          \<and> added w (snd (n_verify_body c s w)) =
              [PoolEnter 3, Submit SearchTask p r, Submit CodeValidationTask p r,
               Join SearchTask,
               VerifierRun p r (get (dict_update s d1) ''web_search_results'')] @ more @
              [Join CodeValidationTask, PoolExit])
     \<and> joined_before_verifier SearchTask (added w (snd (n_verify_body c s w)))
     \<and> \<not> joined_before_verifier CodeValidationTask (added w (snd (n_verify_body c s w)))"
proof -
  let ?w1 = "w\<lparr>events := events w @
               [PoolEnter 3, Submit SearchTask p r, Submit CodeValidationTask p r,
                Join SearchTask]\<rparr>"
  let ?sr = "get (dict_update s d1) ''web_search_results''"
  from verifier_events[of c ResponseVerifierAgent p r ?sr ?w1] assms(4)
  obtain more where
    m: "events w2 = events ?w1 @ VerifierRun p r ?sr # more" "list_all is_gemini_call more"
    by auto
  have body: "n_verify_body c s w =
           (Inr (dict_update (dict_update (dict_update s d1) d2) d3),
            w2\<lparr>events := events w2 @ [Join CodeValidationTask, PoolExit]\<rparr>)"
    using assms by (rule n_verify_body_success)
  have ad: "added w (snd (n_verify_body c s w)) =
              [PoolEnter 3, Submit SearchTask p r, Submit CodeValidationTask p r,
               Join SearchTask, VerifierRun p r ?sr] @ more @
              [Join CodeValidationTask, PoolExit]"
    by (simp add: body added_def m(1))
  show ?thesis
    using m(2) by (simp add: ad joined_before_verifier_def) (simp add: body)
qed

lemma instruction_nonempty: "instruction_for_verifier_llm \<noteq> []"
  by (simp add: instruction_for_verifier_llm_def)

lemma verify_example:
  "events (snd (n_verify_body (example_caps (Inr ''ok''))
      [''final_prompt'' \<mapsto> PStr ''q'', ''llm_response'' \<mapsto> PStr ''a''] w0)) =
     [PoolEnter 3, Submit SearchTask (PStr ''q'') (PStr ''a''),
      Submit CodeValidationTask (PStr ''q'') (PStr ''a''), Join SearchTask,
      VerifierRun (PStr ''q'') (PStr ''a'') (PDict []),
      GeminiCall False (strip instruction_for_verifier_llm @ [CHR 0x0A, CHR 0x0A] @
         context_for_verifier_llm (example_caps (Inr ''ok'')) (PStr ''q'') (PStr ''a'') (PStr [])),
      Join CodeValidationTask, PoolExit]"
  by (simp add: n_verify_body_def with_pool_def comp_defs Let_def example_caps_def w0_def
      ResponseVerifierAgent_run_def search_context_def dict_get_def get_def reason_def
      cached_llm_def call_llm_def strip_ok safe_json_def json_re_search_def py_or_def
      instruction_nonempty)

text \<open>
  A run in which every check succeeds: the search is joined before the verifier runs,
  the code validation is not.
\<close>

theorem verification_order_witness:
  "joined_before_verifier SearchTask
     (added w0 (snd (n_verify_body (example_caps (Inr ''ok''))
        [''final_prompt'' \<mapsto> PStr ''q'', ''llm_response'' \<mapsto> PStr ''a''] w0)))
   \<and> \<not> joined_before_verifier CodeValidationTask
     (added w0 (snd (n_verify_body (example_caps (Inr ''ok''))
        [''final_prompt'' \<mapsto> PStr ''q'', ''llm_response'' \<mapsto> PStr ''a''] w0)))"
proof -
  let ?c = "example_caps (Inr ''ok'')"
  let ?s = "[''final_prompt'' \<mapsto> PStr ''q'', ''llm_response'' \<mapsto> PStr ''a'']"
  let ?d1 = "[(''web_search_results'', PDict [])]"
  let ?w1 = "w0\<lparr>events := events w0 @
               [PoolEnter 3, Submit SearchTask (PStr ''q'') (PStr ''a''),
                Submit CodeValidationTask (PStr ''q'') (PStr ''a''), Join SearchTask]\<rparr>"
  let ?run = "ResponseVerifierAgent_run ?c ResponseVerifierAgent (PStr ''q'') (PStr ''a'')
           (get (dict_update ?s ?d1) ''web_search_results'') ?w1"
  have "fst ?run = Inr [(''verdict'', PStr ''Unverifiable''),
                 (''reason'', PStr ''Parse fail or Insufficient LLM reasoning'')]"
    by (simp add: example_caps_def w0_def
      ResponseVerifierAgent_run_def search_context_def dict_get_def get_def reason_def
      cached_llm_def call_llm_def strip_ok safe_json_def json_re_search_def py_or_def
      comp_defs Let_def instruction_nonempty)
  then have run: "?run = (Inr [(''verdict'', PStr ''Unverifiable''),
                 (''reason'', PStr ''Parse fail or Insufficient LLM reasoning'')], snd ?run)"
    by (metis prod.collapse)
  have a1: "?s ''final_prompt'' = Some (PStr ''q'')" and a2: "?s ''llm_response'' = Some (PStr ''a'')"
    by simp_all
  have a3: "searcher_run ?c (PStr ''q'') (PStr ''a'') = Inr ?d1"
    and a5: "code_validator_run ?c (PStr ''q'') (PStr ''a'') = Inr [(''code_verdict'', PStr ''Safe'')]"
    by (simp_all add: example_caps_def)
  from verification_order[of ?s "PStr ''q''" "PStr ''a''" ?c ?d1 w0 _ "snd ?run" _,
      OF a1 a2 a3 run a5]
  show ?thesis
    by blast
qed

text \<open>
  The claim as stated fails: in this run the code validation is not joined before the
  verifier runs.
\<close>

theorem verification_order_counterexample:
  "\<not> (joined_before_verifier SearchTask
       (events (snd (n_verify_body (example_caps (Inr ''ok''))
          [''final_prompt'' \<mapsto> PStr ''q'', ''llm_response'' \<mapsto> PStr ''a''] w0)))
      \<and> joined_before_verifier CodeValidationTask
       (events (snd (n_verify_body (example_caps (Inr ''ok''))
          [''final_prompt'' \<mapsto> PStr ''q'', ''llm_response'' \<mapsto> PStr ''a''] w0))))"
  by (simp add: verify_example joined_before_verifier_def)

section \<open>The risk score along a run\<close>

subsection \<open>Only the graph streams states\<close>

lemma streamed_Nil: "streamed [] = []"
  by (simp add: streamed_def map_filter_def)

lemma streamed_Cons:
  "streamed (e # evs) = (case node_state e of None \<Rightarrow> streamed evs | Some s \<Rightarrow> s # streamed evs)"
  by (simp add: streamed_def map_filter_def split: option.split)

lemma streamed_append: "streamed (xs @ ys) = streamed xs @ streamed ys"
  by (simp add: streamed_def map_filter_def)

lemma streamed_gemini: "list_all is_gemini_call evs \<Longrightarrow> streamed evs = []"
proof (induction evs)
  case Nil
  show ?case by (simp add: streamed_Nil)
next
  case (Cons e evs)
  then show ?case by (cases e) (simp_all add: streamed_Cons)
qed

lemma added_append: "events w' = events w @ evs \<Longrightarrow> added w w' = evs"
  by (simp add: added_def)

lemma quiet_ret: "quiet (ret x)"
  by (simp add: quiet_def ret_def streamed_Nil)

lemma quiet_throw: "quiet (throw e)"
  by (simp add: quiet_def throw_def streamed_Nil)

lemma quiet_lift: "quiet (lift r)"
  by (simp add: quiet_def lift_def streamed_Nil)

lemma quiet_emit: "node_state e = None \<Longrightarrow> quiet (emit e)"
  by (simp add: quiet_def emit_def streamed_Cons streamed_Nil)

lemma quiet_item: "quiet (item s k)"
  by (simp add: item_def quiet_ret quiet_throw split: option.split)

lemma quiet_bind:
  assumes "quiet f" and "\<And>x. quiet (g x)"
  shows "quiet (bind f g)"
  unfolding quiet_def
proof
  fix w
  obtain r w1 where f: "f w = (r, w1)"
    by (cases "f w")
  from assms(1) obtain e1 where "events (snd (f w)) = events w @ e1" and s1: "streamed e1 = []"
    unfolding quiet_def by blast
  with f have e1: "events w1 = events w @ e1"
    by simp
  show "\<exists>evs. events (snd (bind f g w)) = events w @ evs \<and> streamed evs = []"
  proof (cases r)
    case (Inl e)
    with f e1 s1 show ?thesis
      by (simp add: bind_def)
  next
    case (Inr x)
    from assms(2)[of x] obtain e2 where
      e2: "events (snd (g x w1)) = events w1 @ e2" "streamed e2 = []"
      unfolding quiet_def by blast
    with f e1 s1 Inr show ?thesis
      by (intro exI[of _ "e1 @ e2"]) (simp add: bind_def streamed_append)
  qed
qed

lemma quiet_call_llm: "quiet (call_llm c prompt system_msg)"
  by (simp add: call_llm_def Let_def quiet_bind quiet_emit quiet_lift quiet_ret)

lemma quiet_json_response: "quiet (call_llm_with_json_response c prompt)"
  unfolding call_llm_with_json_response_def Let_def
  by (intro quiet_bind quiet_emit quiet_lift) (simp_all add: quiet_ret split: option.split)

lemma quiet_cached_llm: "quiet (cached_llm c a p m)"
  unfolding quiet_def using cached_llm_events[of c a p m] streamed_gemini by blast

lemma quiet_reason: "quiet (reason c a p m)"
  by (simp add: reason_def quiet_cached_llm)

lemma quiet_verifier: "quiet (ResponseVerifierAgent_run c a p r sr)"
  unfolding ResponseVerifierAgent_run_def Let_def
  by (intro quiet_bind quiet_emit quiet_lift quiet_reason)
     (simp_all add: quiet_ret quiet_throw split: pyval.split)

lemma quiet_with_pool:
  assumes "quiet body"
  shows "quiet (with_pool k body)"
  unfolding quiet_def
proof
  fix w :: world
  let ?w1 = "w\<lparr>events := events w @ [PoolEnter k]\<rparr>"
  from assms obtain e1 where e1: "events (snd (body ?w1)) = events ?w1 @ e1" "streamed e1 = []"
    unfolding quiet_def by blast
  have "events (snd (with_pool k body w)) = events (snd (body ?w1)) @ [PoolExit]"
    by (simp add: with_pool_def comp_defs split: prod.split)
  with e1 show "\<exists>evs. events (snd (with_pool k body w)) = events w @ evs \<and> streamed evs = []"
    by (intro exI[of _ "PoolEnter k # e1 @ [PoolExit]"])
       (simp add: streamed_Cons streamed_append streamed_Nil)
qed

lemma quiet_n_verify_body: "quiet (n_verify_body c s)"
  unfolding n_verify_body_def Let_def
  by (intro quiet_bind quiet_item quiet_with_pool quiet_emit quiet_lift quiet_verifier quiet_ret)
     simp_all

lemma quiet_log_event: "quiet (log_event c s)"
  unfolding log_event_def Let_def
  by (intro quiet_bind quiet_lift)
     (auto intro!: quiet_bind quiet_lift quiet_ret quiet_emit)

lemma quiet_analysis_run: "quiet (InitialAnalysisAgent_run c p)"
  by (cases p)
     (auto simp: InitialAnalysisAgent_run_def intro!: quiet_bind quiet_json_response quiet_ret
        quiet_throw split: pyval.split)

lemma quiet_node_fn: "quiet (node_fn c n s)"
proof (cases n)
  case Analysis
  then show ?thesis
    by (auto simp: n_analysis_def intro!: quiet_bind quiet_item quiet_analysis_run quiet_ret)
next
  case Rewrite
  then show ?thesis
    by (auto simp: n_rewrite_def intro!: quiet_bind quiet_item quiet_emit quiet_lift quiet_ret)
next
  case Passthrough
  then show ?thesis
    by (auto simp: n_passthrough_def intro!: quiet_bind quiet_item quiet_ret)
next
  case Block
  then show ?thesis
    by (simp add: n_block_def quiet_ret del: dict_update.simps)
next
  case Llm
  then show ?thesis
    by (auto simp: n_llm_def intro!: quiet_bind quiet_item quiet_call_llm quiet_ret)
next
  case Verify
  then show ?thesis
    by (auto simp: n_verify_def intro!: quiet_bind quiet_n_verify_body quiet_ret)
next
  case Fast
  then show ?thesis
    by (simp add: n_fast_def quiet_ret del: dict_update.simps)
next
  case Audit
  then show ?thesis
    by (auto simp: n_audit_def intro!: quiet_bind quiet_log_event quiet_ret)
next
  case End
  then show ?thesis
    by (simp add: quiet_ret)
qed

lemma run_node_events:
  assumes "run_node c n s w = (r, w')"
  shows "\<exists>evs. events w' = events w @ evs
           \<and> streamed evs = (case r of Inl e \<Rightarrow> [] | Inr s' \<Rightarrow> [s'])"
proof -
  let ?w1 = "w\<lparr>events := events w @ [NodeEnter n]\<rparr>"
  obtain r1 w2 where f: "node_fn c n s ?w1 = (r1, w2)"
    by (cases "node_fn c n s ?w1")
  from quiet_node_fn[of c n s] obtain e1 where
    "events (snd (node_fn c n s ?w1)) = events ?w1 @ e1" and s1: "streamed e1 = []"
    unfolding quiet_def by blast
  with f have e1: "events w2 = events w @ NodeEnter n # e1"
    by simp
  show ?thesis
  proof (cases r1)
    case (Inl e)
    with assms f have "r = Inl e" "w' = w2"
      by (simp_all add: run_node_def comp_defs)
    with e1 s1 show ?thesis
      by (simp add: streamed_Cons)
  next
    case (Inr u)
    let ?s' = "case u of None \<Rightarrow> s | Some x \<Rightarrow> s ++ x"
    from assms f Inr have "r = Inr ?s'" "w' = w2\<lparr>events := events w2 @ [NodeDone n ?s']\<rparr>"
      by (simp_all add: run_node_def comp_defs Let_def)
    with e1 s1 show ?thesis
      by (simp add: streamed_Cons streamed_append streamed_Nil)
  qed
qed

subsection \<open>No node after the analysis writes the risk score\<close>

lemma node_fn_risk:
  assumes "n \<noteq> Analysis" and "node_fn c n s w = (Inr u, w')"
  shows "(case u of None \<Rightarrow> s | Some x \<Rightarrow> s ++ x) ''risk_score'' = s ''risk_score''"
proof (cases n)
  case Analysis
  with assms(1) show ?thesis by simp
next
  case Rewrite
  with assms(2) show ?thesis
    by (auto simp: n_rewrite_def comp_defs map_add_def split: option.splits sum.splits)
next
  case Passthrough
  with assms(2) show ?thesis
    by (auto simp: n_passthrough_def comp_defs map_add_def split: option.splits sum.splits)
next
  case Block
  with assms(2) show ?thesis
    by (auto simp: n_block_def comp_defs map_add_def split: option.splits)
next
  case Llm
  with assms(2) show ?thesis
    by (auto simp: n_llm_def comp_defs map_add_def
        split: option.splits sum.splits prod.splits if_splits)
next
  case Verify
  with assms(2) show ?thesis
    by (auto simp: n_verify_def comp_defs split: sum.splits prod.splits)
next
  case Fast
  with assms(2) show ?thesis
    by (auto simp: n_fast_def comp_defs map_add_def split: option.splits)
next
  case Audit
  with assms(2) show ?thesis
    by (auto simp: n_audit_def comp_defs map_add_def split: sum.splits prod.splits option.splits)
next
  case End
  with assms(2) show ?thesis
    by (auto simp: comp_defs)
qed

lemma run_node_risk:
  assumes "n \<noteq> Analysis" and "run_node c n s w = (Inr s', w')"
  shows "s' ''risk_score'' = s ''risk_score''"
proof -
  let ?w1 = "w\<lparr>events := events w @ [NodeEnter n]\<rparr>"
  obtain r1 w2 where f: "node_fn c n s ?w1 = (r1, w2)"
    by (cases "node_fn c n s ?w1")
  show ?thesis
  proof (cases r1)
    case (Inl e)
    with assms(2) f show ?thesis
      by (simp add: run_node_def comp_defs)
  next
    case (Inr u)
    with assms(2) f have "s' = (case u of None \<Rightarrow> s | Some x \<Rightarrow> s ++ x)"
      by (simp add: run_node_def comp_defs Let_def)
    with node_fn_risk[OF assms(1), of c s ?w1 u w2] f Inr show ?thesis
      by simp
  qed
qed

lemma next_node_not_Analysis: "next_node n s = Inr n' \<Longrightarrow> n' \<noteq> Analysis"
  by (cases n)
     (auto simp: analysis_route_def analysis_target_def llm_route_def
        split: option.splits sum.splits if_splits)

lemma exec_risk:
  assumes "n \<noteq> Analysis" and "exec k c n s w = (res, w')"
  shows "\<exists>evs. events w' = events w @ evs
           \<and> list_all (\<lambda>s'. s' ''risk_score'' = s ''risk_score'') (streamed evs)
           \<and> (\<forall>s'. res = Inr s' \<longrightarrow> s' ''risk_score'' = s ''risk_score'')"
  using assms
proof (induction k arbitrary: n s w)
  case 0
  then show ?case
    by (auto simp: comp_defs streamed_Nil split: if_splits)
next
  case (Suc k)
  show ?case
  proof (cases "n = End")
    case True
    with Suc.prems(2) show ?thesis
      by (auto simp: comp_defs streamed_Nil)
  next
    case False
    obtain r1 w1 where rn: "run_node c n s w = (r1, w1)"
      by (cases "run_node c n s w")
    from run_node_events[OF rn] obtain e1 where
      e1: "events w1 = events w @ e1"
        "streamed e1 = (case r1 of Inl e \<Rightarrow> [] | Inr s' \<Rightarrow> [s'])"
      by blast
    show ?thesis
    proof (cases r1)
      case (Inl e)
      with Suc.prems(2) False rn have "res = Inl e" "w' = w1"
        by (simp_all add: bind_def)
      with e1 Inl show ?thesis
        by (intro exI[of _ e1]) simp
    next
      case (Inr s1)
      have risk1: "s1 ''risk_score'' = s ''risk_score''"
        using run_node_risk[OF Suc.prems(1)] rn Inr by simp
      show ?thesis
      proof (cases "next_node n s1")
        case (Inl e)
        with Suc.prems(2) False rn Inr have "res = Inl e" "w' = w1"
          by (simp_all add: bind_def lift_def del: next_node.simps)
        with e1 Inr risk1 show ?thesis
          by (intro exI[of _ e1]) simp
      next
        case nn: (Inr n')
        then have na: "n' \<noteq> Analysis"
          by (rule next_node_not_Analysis)
        from Suc.prems(2) False rn Inr nn have ex: "exec k c n' s1 w1 = (res, w')"
          by (simp add: bind_def lift_def del: next_node.simps)
        from Suc.IH[OF na ex] obtain e2 where
          e2: "events w' = events w1 @ e2"
            "list_all (\<lambda>s'. s' ''risk_score'' = s1 ''risk_score'') (streamed e2)"
            "\<forall>s'. res = Inr s' \<longrightarrow> s' ''risk_score'' = s1 ''risk_score''"
          by blast
        with e1 Inr risk1 show ?thesis
          by (intro exI[of _ "e1 @ e2"]) (simp add: streamed_append)
      qed
    qed
  qed
qed

subsection \<open>The analysis node writes the judgment\<close>

lemma analysis_run_decodes:
  assumes "call_gemini c True (PROMPT_format (escape_quotes p)) = Inr out"
  shows "InitialAnalysisAgent_run c (PStr p) w =
           (Inr (classifier_judgment c out),
            w\<lparr>events := events w @ [GeminiCall True (PROMPT_format (escape_quotes p))]\<rparr>)"
proof (cases "decode_fails c out")
  case True
  with analysis_run_decode_fails[OF assms True, of w] show ?thesis
    by (simp add: classifier_judgment_def)
next
  case False
  with assms show ?thesis
    by (auto simp: InitialAnalysisAgent_run_def call_llm_with_json_response_def comp_defs
        decode_fails_def classifier_judgment_def Let_def split: option.splits pyval.splits)
qed

lemma run_node_Analysis:
  assumes "s0 ''user_prompt'' = Some (PStr p)"
    and "call_gemini c True (PROMPT_format (escape_quotes p)) = Inr out"
  shows "run_node c Analysis s0 w =
           (Inr (dict_update s0 (classifier_judgment c out)),
            w\<lparr>events := events w @
                [NodeEnter Analysis, GeminiCall True (PROMPT_format (escape_quotes p)),
                 NodeDone Analysis (dict_update s0 (classifier_judgment c out))]\<rparr>)"
  using assms(1)
  by (simp add: run_node_def n_analysis_def comp_defs analysis_run_decodes[OF assms(2)]
      merge_dict_update Let_def)

lemma list_all_const:
  assumes "xs \<noteq> []" and "list_all (\<lambda>s. f s = v) xs"
  shows "list_all (\<lambda>s. P (f s)) xs \<longleftrightarrow> P v"
  using assms by (cases xs) (auto simp: list_all_iff)

lemma fail_safe_risk:
  "decode_fails c out \<Longrightarrow>
     dict_update s0 (classifier_judgment c out) ''risk_score'' = Some (PNum 0.8)"
  by (simp add: classifier_judgment_def parse_error_judgment_def)

lemma invoke_risk:
  assumes "s0 ''user_prompt'' = Some (PStr p)"
    and "call_gemini c True (PROMPT_format (escape_quotes p)) = Inr out"
  shows "\<exists>evs. added w (snd (invoke c s0 w)) = evs
     \<and> streamed evs \<noteq> []
     \<and> hd (streamed evs) = dict_update s0 (classifier_judgment c out)
     \<and> list_all (\<lambda>s. s ''risk_score'' = dict_update s0 (classifier_judgment c out) ''risk_score'')
          (streamed evs)
     \<and> (\<forall>s. fst (invoke c s0 w) = Inr s \<longrightarrow>
          s ''risk_score'' = dict_update s0 (classifier_judgment c out) ''risk_score'')"
proof -
  let ?s1 = "dict_update s0 (classifier_judgment c out)"
  let ?e1 = "[NodeEnter Analysis, GeminiCall True (PROMPT_format (escape_quotes p)),
                 NodeDone Analysis ?s1]"
  let ?w1 = "w\<lparr>events := events w @ ?e1\<rparr>"
  have inv: "invoke c s0 w = after_node 24 c Analysis ?s1 ?w1"
    by (simp add: invoke_after bind_def run_node_Analysis[of s0 p c out, OF assms])
  have st1: "streamed ?e1 = [?s1]"
    by (simp add: streamed_Cons streamed_Nil)
  show ?thesis
  proof (cases "next_node Analysis ?s1")
    case (Inl e)
    then have "invoke c s0 w = (Inl e, ?w1)"
      by (simp add: inv after_node_def bind_def lift_def del: next_node.simps)
    then show ?thesis
      by (simp add: added_def streamed_Cons streamed_Nil)
  next
    case (Inr n')
    then have na: "n' \<noteq> Analysis"
      by (rule next_node_not_Analysis)
    obtain res w' where ex: "exec 24 c n' ?s1 ?w1 = (res, w')"
      by (cases "exec 24 c n' ?s1 ?w1")
    with Inr have iv: "invoke c s0 w = (res, w')"
      by (simp add: inv after_node_def bind_def lift_def del: next_node.simps)
    from exec_risk[OF na ex] obtain e2 where
      e2: "events w' = events ?w1 @ e2"
        "list_all (\<lambda>s'. s' ''risk_score'' = ?s1 ''risk_score'') (streamed e2)"
        "\<forall>s'. res = Inr s' \<longrightarrow> s' ''risk_score'' = ?s1 ''risk_score''"
      by blast
    from e2(1) have "added w w' = ?e1 @ e2"
      by (simp add: added_def)
    with e2(2,3) show ?thesis
      by (simp add: iv streamed_Cons del: dict_update.simps)
  qed
qed

text \<open>
  C7, as amended.  In a run of the pipeline on a state with a prompt, for which the
  reasoning capability answers the Classifier, a state is streamed after the analysis
  node: the initial state updated with the Classifier's judgment, which is the fallback
  judgment with risk score 0.8 when the reply does not decode, and otherwise the decoded
  reply as it is, its risk score unchecked.  Every state streamed in the run, and the
  state the run returns, holds the risk score of that first state: no later node writes
  it.  So the risk scores of the states of a run are between 0 and 1 exactly when the
  risk score of the judgment is.
\<close>

theorem risk_score_invariant:
  assumes "s0 ''user_prompt'' = Some (PStr p)"
    and "call_gemini c True (PROMPT_format (escape_quotes p)) = Inr out"
  shows "streamed (added w (snd (invoke c s0 w))) \<noteq> []
     \<and> hd (streamed (added w (snd (invoke c s0 w)))) = dict_update s0 (classifier_judgment c out)
     \<and> list_all (\<lambda>s. s ''risk_score'' = dict_update s0 (classifier_judgment c out) ''risk_score'')
          (streamed (added w (snd (invoke c s0 w))))
     \<and> (\<forall>s. fst (invoke c s0 w) = Inr s \<longrightarrow>
          s ''risk_score'' = dict_update s0 (classifier_judgment c out) ''risk_score'')
     \<and> (decode_fails c out \<longrightarrow>
          dict_update s0 (classifier_judgment c out) ''risk_score'' = Some (PNum 0.8))
     \<and> (list_all (\<lambda>s. in_unit_range (s ''risk_score''))
          (streamed (added w (snd (invoke c s0 w)))) \<longleftrightarrow>
        in_unit_range (dict_update s0 (classifier_judgment c out) ''risk_score''))"
proof -
  let ?v = "dict_update s0 (classifier_judgment c out) ''risk_score''"
  let ?xs = "streamed (added w (snd (invoke c s0 w)))"
  from invoke_risk[of s0 p c out w, OF assms] have
    ne: "?xs \<noteq> []" and
    hd: "hd ?xs = dict_update s0 (classifier_judgment c out)" and
    al: "list_all (\<lambda>s. s ''risk_score'' = ?v) ?xs" and
    fin: "\<forall>s. fst (invoke c s0 w) = Inr s \<longrightarrow> s ''risk_score'' = ?v"
    by simp_all
  have rng: "list_all (\<lambda>s. in_unit_range (s ''risk_score'')) ?xs \<longleftrightarrow> in_unit_range ?v"
    using list_all_const[of ?xs "\<lambda>s. s ''risk_score''" ?v in_unit_range, OF ne al] .
  from ne hd al fin fail_safe_risk[of c out s0] rng show ?thesis
    by blast
qed

text \<open>
  A reply that is no JSON: every state of the run holds the risk score 0.8, which is in
  range.
\<close>

theorem risk_score_invariant_witness:
  "list_all (\<lambda>s. s ''risk_score'' = Some (PNum 0.8))
     (streamed (added w0 (snd (invoke (example_caps (Inr ''not json''))
        (initial_graph_state ''hi'' False []) w0))))
   \<and> streamed (added w0 (snd (invoke (example_caps (Inr ''not json''))
        (initial_graph_state ''hi'' False []) w0))) \<noteq> []"
proof -
  let ?c = "example_caps (Inr ''not json'')"
  let ?s0 = "initial_graph_state ''hi'' False []"
  have a1: "?s0 ''user_prompt'' = Some (PStr ''hi'')"
    by (simp add: initial_graph_state_def)
  have a2: "call_gemini ?c True (PROMPT_format (escape_quotes ''hi'')) = Inr ''not json''"
    by (simp add: example_caps_def)
  let ?v = "dict_update ?s0 (classifier_judgment ?c ''not json'') ''risk_score''"
  let ?xs = "streamed (added w0 (snd (invoke ?c ?s0 w0)))"
  note inv = risk_score_invariant[of ?s0 "''hi''" ?c "''not json''" w0, OF a1 a2]
  from inv have ne: "?xs \<noteq> []" and al: "list_all (\<lambda>s. s ''risk_score'' = ?v) ?xs"
    by blast+
  from inv example_decode_fails have "?v = Some (PNum 0.8)"
    by blast
  with al ne show ?thesis
    by (simp only: simp_thms)
qed

text \<open>
  The claim as stated fails: for a reply that decodes to the risk score 5, the run
  returns a state with the risk score 5.
\<close>

theorem risk_score_invariant_counterexample:
  "final_field (invoke (example_caps (Inr example_json)) (initial_graph_state ''hi'' False []) w0)
      ''risk_score'' = Some (PNum 5)
   \<and> \<not> in_unit_range
       (final_field (invoke (example_caps (Inr example_json))
          (initial_graph_state ''hi'' False []) w0) ''risk_score'')"
proof -
  let ?c = "example_caps (Inr example_json)"
  let ?s = "[''user_prompt'' \<mapsto> PStr ''hi'', ''classification'' \<mapsto> PStr ''Safe'',
           ''risk_score'' \<mapsto> PNum 5]"
  have c: "classified ?s"
    by (simp add: classified_def)
  have b: "block_condition ?s"
    by (simp add: block_condition_def)
  have inv: "invoke ?c (initial_graph_state ''hi'' False []) w0 =
      after_node (Suc (Suc 22)) ?c Analysis ?s
        (w0\<lparr>events := [NodeEnter Analysis, GeminiCall True (PROMPT_format (escape_quotes ''hi'')),
                    NodeDone Analysis ?s]\<rparr>)"
    by (simp add: invoke_after bind_def analysis_example)
  from block_branch[OF c b, of 22 ?c] inv
  have "fst (invoke ?c (initial_graph_state ''hi'' False []) w0) = Inr (blocked ?s)"
    by (metis fst_conv)
  then show ?thesis
    by (simp add: final_field_def blocked_fields in_unit_range_def)
qed

section \<open>The heuristic fallback judge\<close>

subsection \<open>The matcher decides the signatures\<close>

lemma lower_length: "lower u = lower w \<Longrightarrow> length u = length w"
  unfolding lower_def by (rule map_eq_imp_length_eq)

lemma rx_match_iff: "rx_match rs s \<longleftrightarrow> (\<exists>m post. s = m @ post \<and> matches rs m)"
proof (induction rs s rule: rx_match.induct)
  case (1 s)
  show ?case by simp
next
  case (2 w rs s)
  show ?case
  proof
    assume a: "rx_match (Lit w # rs) s"
    then have len: "length w \<le> length s" and lw: "lower (take (length w) s) = lower w"
      and "rx_match rs (drop (length w) s)"
      by simp_all
    with 2 obtain m post where mp: "drop (length w) s = m @ post" "matches rs m"
      by blast
    have "s = (take (length w) s @ m) @ post"
      using mp(1) by (metis append_assoc append_take_drop_id)
    moreover have "matches (Lit w # rs) (take (length w) s @ m)"
      using lw mp(2) by auto
    ultimately show "\<exists>m post. s = m @ post \<and> matches (Lit w # rs) m"
      by blast
  next
    assume "\<exists>m post. s = m @ post \<and> matches (Lit w # rs) m"
    then obtain u v post where s: "s = (u @ v) @ post" and lu: "lower u = lower w"
      and mv: "matches rs v"
      by auto
    from lu have len: "length u = length w"
      by (rule lower_length)
    from s len have tk: "take (length w) s = u" and dr: "drop (length w) s = v @ post"
      by simp_all
    from mv dr 2 have "rx_match rs (drop (length w) s)"
      by blast
    with tk lu len s show "rx_match (Lit w # rs) s"
      by simp
  qed
next
  case (3 rs)
  then show ?case by simp
next
  case (4 rs ch cs)
  show ?case
  proof
    assume "rx_match (DotStar # rs) (ch # cs)"
    then consider "rx_match rs (ch # cs)" | "ch \<noteq> CHR 0x0A" "rx_match (DotStar # rs) cs"
      by auto
    then show "\<exists>m post. ch # cs = m @ post \<and> matches (DotStar # rs) m"
    proof cases
      case 1
      with 4 obtain m post where "ch # cs = m @ post" "matches rs m"
        by blast
      then have "ch # cs = m @ post \<and> matches (DotStar # rs) m"
        by (auto intro: exI[of _ "[]"])
      then show ?thesis by blast
    next
      case 2
      with 4 obtain m post where cs: "cs = m @ post" and "matches (DotStar # rs) m"
        by blast
      then obtain u v where m: "m = u @ v" and nl: "CHR 0x0A \<notin> set u" and mv: "matches rs v"
        by auto
      have "matches (DotStar # rs) ((ch # u) @ v)"
        using nl mv 2(1) by (simp only: matches.simps) (intro exI[of _ "ch # u"] exI[of _ v], simp)
      moreover have "ch # cs = ((ch # u) @ v) @ post"
        using cs m by simp
      ultimately show ?thesis by blast
    qed
  next
    assume "\<exists>m post. ch # cs = m @ post \<and> matches (DotStar # rs) m"
    then obtain u v post where s: "ch # cs = (u @ v) @ post" and nl: "CHR 0x0A \<notin> set u"
      and mv: "matches rs v"
      by auto
    show "rx_match (DotStar # rs) (ch # cs)"
    proof (cases u)
      case Nil
      with s mv have "\<exists>m post. ch # cs = m @ post \<and> matches rs m"
        by auto
      with 4 show ?thesis by simp
    next
      case (Cons a u')
      with s nl have ch: "ch \<noteq> CHR 0x0A" and cs: "cs = (u' @ v) @ post" and nl': "CHR 0x0A \<notin> set u'"
        by auto
      from nl' mv have "matches (DotStar # rs) (u' @ v)"
        by auto
      with cs have "\<exists>m post. cs = m @ post \<and> matches (DotStar # rs) m"
        by blast
      with 4 ch show ?thesis by simp
    qed
  qed
qed

lemma rx_search_iff: "rx_search rs s \<longleftrightarrow> sig_found rs s"
proof (induction s)
  case Nil
  show ?case
    by (simp add: rx_match_iff sig_found_def)
next
  case (Cons ch cs)
  show ?case
  proof
    assume "rx_search rs (ch # cs)"
    then consider "rx_match rs (ch # cs)" | "rx_search rs cs"
      by auto
    then show "sig_found rs (ch # cs)"
    proof cases
      case 1
      then obtain m post where "ch # cs = [] @ m @ post" "matches rs m"
        by (auto simp: rx_match_iff)
      then show ?thesis
        unfolding sig_found_def by blast
    next
      case 2
      with Cons obtain pre m post where "cs = pre @ m @ post" "matches rs m"
        by (auto simp: sig_found_def)
      then have "ch # cs = (ch # pre) @ m @ post" "matches rs m"
        by simp_all
      then show ?thesis
        unfolding sig_found_def by blast
    qed
  next
    assume "sig_found rs (ch # cs)"
    then obtain pre m post where s: "ch # cs = pre @ m @ post" and mm: "matches rs m"
      by (auto simp: sig_found_def)
    show "rx_search rs (ch # cs)"
    proof (cases pre)
      case Nil
      with s mm have "rx_match rs (ch # cs)"
        by (auto simp: rx_match_iff)
      then show ?thesis by simp
    next
      case pre: (Cons a pre')
      with s have "cs = pre' @ m @ post"
        by simp
      with mm have "sig_found rs cs"
        unfolding sig_found_def by blast
      with Cons.IH show ?thesis by simp
    qed
  qed
qed

lemma category_detected_code:
  "category_detected k text \<longleftrightarrow>
     (case map_of PATTERNS k of
        None \<Rightarrow> False
      | Some sigs \<Rightarrow> list_ex (\<lambda>r. rx_search r text) sigs)"
  by (auto simp: category_detected_def rx_search_iff list_ex_iff split: option.split)

subsection \<open>The report\<close>

lemma patterns_keys:
  "map_of PATTERNS ''hallucination'' = None"
  "map_of PATTERNS ''prompt_injection'' = Some (snd (PATTERNS ! 0))"
  "map_of PATTERNS ''jailbreaking'' = Some (snd (PATTERNS ! 1))"
  "map_of PATTERNS ''llmjacking'' = Some (snd (PATTERNS ! 2))"
  by (simp_all add: PATTERNS_def)

lemma hallucination_not_detected: "\<not> category_detected ''hallucination'' text"
  by (simp add: category_detected_def patterns_keys)

lemma heuristics_findings:
  "heuristics text =
     [(''prompt_injection'', finding ''prompt_injection'' text),
      (''jailbreaking'', finding ''jailbreaking'' text),
      (''llmjacking'', finding ''llmjacking'' text),
      (''hallucination'',
         PDict [(''detected'', PBool False), (''risk_score'', PNum 0.0), (''reason'', PStr ''N/A'')])]"
  by (simp add: heuristics_def finding_def category_risk_def category_detected_code PATTERNS_def)

lemma attach_overall_findings:
  "attach_overall
     [(''prompt_injection'',
         PDict [(''detected'', PBool b1), (''risk_score'', PNum (if b1 then 0.8 else 0.1)),
                (''reason'', PStr ''Pattern heuristic'')]),
      (''jailbreaking'',
         PDict [(''detected'', PBool b2), (''risk_score'', PNum (if b2 then 0.8 else 0.1)),
                (''reason'', PStr ''Pattern heuristic'')]),
      (''llmjacking'',
         PDict [(''detected'', PBool b3), (''risk_score'', PNum (if b3 then 0.8 else 0.1)),
                (''reason'', PStr ''Pattern heuristic'')]),
      (''hallucination'',
         PDict [(''detected'', PBool False), (''risk_score'', PNum 0.0), (''reason'', PStr ''N/A'')])] =
   Inr
     [(''prompt_injection'',
         PDict [(''detected'', PBool b1), (''risk_score'', PNum (if b1 then 0.8 else 0.1)),
                (''reason'', PStr ''Pattern heuristic'')]),
      (''jailbreaking'',
         PDict [(''detected'', PBool b2), (''risk_score'', PNum (if b2 then 0.8 else 0.1)),
                (''reason'', PStr ''Pattern heuristic'')]),
      (''llmjacking'',
         PDict [(''detected'', PBool b3), (''risk_score'', PNum (if b3 then 0.8 else 0.1)),
                (''reason'', PStr ''Pattern heuristic'')]),
      (''hallucination'',
         PDict [(''detected'', PBool False), (''risk_score'', PNum 0.0), (''reason'', PStr ''N/A'')]),
      (''overall_risk_score'', PNum (if b1 \<or> b2 \<or> b3 then 0.8 else 0.1)),
      (''attack_types'',
         PList ((if b1 then [PStr ''prompt_injection''] else []) @
                (if b2 then [PStr ''jailbreaking''] else []) @
                (if b3 then [PStr ''llmjacking''] else [])))]"
  by (cases b1; cases b2; cases b3)
     (simp_all add: attach_overall_def py_gt_def has_detected_def dict_get_def Let_def)

lemma max_category_risk:
  "Max (set (map (\<lambda>k. category_risk k text) categories)) =
     (if category_detected ''prompt_injection'' text \<or> category_detected ''jailbreaking'' text
         \<or> category_detected ''llmjacking'' text then 0.8 else 0.1)"
  by (simp add: categories_def category_risk_def)

lemma detected_categories:
  "map PStr (filter (\<lambda>k. category_detected k text) categories) =
     (if category_detected ''prompt_injection'' text then [PStr ''prompt_injection''] else []) @
     (if category_detected ''jailbreaking'' text then [PStr ''jailbreaking''] else []) @
     (if category_detected ''llmjacking'' text then [PStr ''llmjacking''] else [])"
  by (simp add: categories_def hallucination_not_detected)

lemma fallback_report:
  "attach_overall (heuristics text) =
     Inr [(''prompt_injection'', finding ''prompt_injection'' text),
          (''jailbreaking'', finding ''jailbreaking'' text),
          (''llmjacking'', finding ''llmjacking'' text),
          (''hallucination'',
             PDict [(''detected'', PBool False), (''risk_score'', PNum 0.0),
                    (''reason'', PStr ''N/A'')]),
          (''overall_risk_score'',
             PNum (Max (set (map (\<lambda>k. category_risk k text) categories)))),
          (''attack_types'',
             PList (map PStr (filter (\<lambda>k. category_detected k text) categories)))]"
proof -
  have f: "finding ''prompt_injection'' text =
        PDict [(''detected'', PBool (category_detected ''prompt_injection'' text)),
               (''risk_score'',
                  PNum (if category_detected ''prompt_injection'' text then 0.8 else 0.1)),
               (''reason'', PStr ''Pattern heuristic'')]"
      "finding ''jailbreaking'' text =
        PDict [(''detected'', PBool (category_detected ''jailbreaking'' text)),
               (''risk_score'',
                  PNum (if category_detected ''jailbreaking'' text then 0.8 else 0.1)),
               (''reason'', PStr ''Pattern heuristic'')]"
      "finding ''llmjacking'' text =
        PDict [(''detected'', PBool (category_detected ''llmjacking'' text)),
               (''risk_score'',
                  PNum (if category_detected ''llmjacking'' text then 0.8 else 0.1)),
               (''reason'', PStr ''Pattern heuristic'')]"
    by (simp_all add: finding_def category_risk_def)
  show ?thesis
    unfolding heuristics_findings max_category_risk detected_categories f
    by (rule attach_overall_findings)
qed

lemma run_fallback:
  assumes "reason c self
             (''Prompt:\<newline>'' @ dq @ dq @ dq @ text @ dq @ dq @ dq @
              ''\<newline>\<newline>Response:\<newline>'' @ dq @ dq @ dq @
              (case response of None \<Rightarrow> [] | Some r \<Rightarrow> r) @ dq @ dq @ dq)
             (Some (''Return ONLY JSON with keys prompt_injection, jailbreaking, '' @
                    ''hallucination, llmjacking.'')) w = (Inr raw, w')"
    and "\<not> truthy (safe_json c raw)"
  shows "AttackDetectionAgent_run c self text response w = (attach_overall (heuristics text), w')"
  using assms by (simp add: AttackDetectionAgent_run_def bind_def lift_def Let_def)

text \<open>
  C8.  For every input text the fallback judge, \<^verbatim>\<open>_attach_overall\<close> applied to the
  heuristic findings, returns a report in which each category of the signature table
  has \<^verbatim>\<open>detected\<close> true exactly when one of its signatures, read case-insensitively, is
  found in the text, and the risk score 0.8 when detected and 0.1 otherwise; the
  hallucination category is not detected, with risk score 0.0; the overall risk score is
  the maximum of the risk scores of the categories; and the attack types are the
  detected categories.  \<^verbatim>\<open>run\<close> returns this report whenever the reasoning call returns
  a reply in which \<^verbatim>\<open>safe_json\<close> finds nothing.
\<close>

theorem heuristic_fallback_judge:
  "report_field (attach_overall (heuristics text)) ''prompt_injection'' =
     Some (finding ''prompt_injection'' text)
   \<and> report_field (attach_overall (heuristics text)) ''jailbreaking'' =
     Some (finding ''jailbreaking'' text)
   \<and> report_field (attach_overall (heuristics text)) ''llmjacking'' =
     Some (finding ''llmjacking'' text)
   \<and> report_field (attach_overall (heuristics text)) ''hallucination'' =
     Some (PDict [(''detected'', PBool False), (''risk_score'', PNum 0.0),
                  (''reason'', PStr ''N/A'')])
   \<and> report_field (attach_overall (heuristics text)) ''overall_risk_score'' =
     Some (PNum (Max (set (map (\<lambda>k. category_risk k text) categories))))
   \<and> report_field (attach_overall (heuristics text)) ''attack_types'' =
     Some (PList (map PStr (filter (\<lambda>k. category_detected k text) categories)))
   \<and> (\<forall>raw w'.
        reason c AttackDetectionAgent
          (''Prompt:\<newline>'' @ dq @ dq @ dq @ text @ dq @ dq @ dq @
           ''\<newline>\<newline>Response:\<newline>'' @ dq @ dq @ dq @
           (case response of None \<Rightarrow> [] | Some r \<Rightarrow> r) @ dq @ dq @ dq)
          (Some (''Return ONLY JSON with keys prompt_injection, jailbreaking, '' @
                 ''hallucination, llmjacking.'')) w = (Inr raw, w')
        \<and> \<not> truthy (safe_json c raw) \<longrightarrow>
        AttackDetectionAgent_run c AttackDetectionAgent text response w =
          (attach_overall (heuristics text), w'))"
  using run_fallback[of c AttackDetectionAgent "text" response w]
  by (simp add: fallback_report report_field_def)

lemma act_as_if_detected:
  "category_detected ''prompt_injection'' ''act as if''"
  "\<not> category_detected ''jailbreaking'' ''act as if''"
  "\<not> category_detected ''llmjacking'' ''act as if''"
  unfolding category_detected_code by code_simp+

text \<open>
  The text \<^verbatim>\<open>act as if\<close>, with a reply that holds no JSON: the report names the prompt
  injection and its overall risk score is 0.8.
\<close>

theorem heuristic_fallback_judge_witness:
  "report_field (fst (AttackDetectionAgent_run (example_caps (Inr ''ok'')) AttackDetectionAgent
       ''act as if'' None w0)) ''attack_types'' = Some (PList [PStr ''prompt_injection''])
   \<and> report_field (fst (AttackDetectionAgent_run (example_caps (Inr ''ok'')) AttackDetectionAgent
       ''act as if'' None w0)) ''overall_risk_score'' = Some (PNum 0.8)"
proof -
  let ?c = "example_caps (Inr ''ok'')"
  let ?call = "reason ?c AttackDetectionAgent
          (''Prompt:\<newline>'' @ dq @ dq @ dq @ ''act as if'' @ dq @ dq @ dq @
           ''\<newline>\<newline>Response:\<newline>'' @ dq @ dq @ dq @
           (case None of None \<Rightarrow> [] | Some r \<Rightarrow> r) @ dq @ dq @ dq)
          (Some (''Return ONLY JSON with keys prompt_injection, jailbreaking, '' @
                 ''hallucination, llmjacking.'')) w0"
  have none: "map_of (cache w0) k = None" for k
    by (simp add: w0_def)
  have "fst ?call = Inr ''ok''"
    by (simp add: reason_def cached_llm_miss[OF none] example_caps_def strip_ok)
  then have call: "?call = (Inr ''ok'', snd ?call)"
    by (metis prod.collapse)
  have nj: "\<not> truthy (safe_json ?c ''ok'')"
    by (simp add: safe_json_def json_re_search_def)
  note j = heuristic_fallback_judge[of "''act as if''" ?c None w0]
  from j call nj have run: "AttackDetectionAgent_run ?c AttackDetectionAgent ''act as if'' None w0 =
      (attach_overall (heuristics ''act as if''), snd ?call)"
    by blast
  from j have
    "report_field (attach_overall (heuristics ''act as if'')) ''attack_types'' =
       Some (PList (map PStr (filter (\<lambda>k. category_detected k ''act as if'') categories)))"
    "report_field (attach_overall (heuristics ''act as if'')) ''overall_risk_score'' =
       Some (PNum (Max (set (map (\<lambda>k. category_risk k ''act as if'') categories))))"
    by blast+
  then show ?thesis
    unfolding max_category_risk detected_categories
    by (simp add: run act_as_if_detected)
qed

end
